theory Spec2Isabelle
  imports Complex_Main "HOL-Library.Char_ord" "HOL-Library.List_Lexorder"
begin

section \<open>Python values and exceptions\<close>

text \<open>
  The launcher \<^verbatim>\<open>run_eval_simlingo_local.py\<close> is modelled function by function.
  Python strings are \<^typ>\<open>string\<close>: one \<^typ>\<open>char\<close> stands for one code point (those up to
  255), ordered by its code as Python orders strings; the keys, statuses and file names the
  program compares with are ASCII. Exceptions are values: a function that can raise returns
  \<open>py_error + 'a\<close>, with \<open>Inl\<close> for the exception. The operating system and the
  evaluator process are parameters of the functions that call them, and are taken to
  return.
\<close>

datatype py_error =
    KeyError string
  | TypeError
  | AttributeError
  | IndexError
  | FileNotFoundError string string

fun is_KeyError :: "py_error \<Rightarrow> bool" where
  "is_KeyError (KeyError k) = True"
| "is_KeyError e = False"

text \<open>
  A Python float read from a result file: a finite double is a rational number, and the
  parser also yields the infinities and NaN.
\<close>

datatype pyfloat = Fin rat | PosInf | NegInf | NaN

text \<open>
  What \<^verbatim>\<open>ujson.load\<close> returns: \<^verbatim>\<open>None\<close>, a bool, an int, a float, a str, a list or a
  dict with string keys. \<open>JObj kvs\<close> stands for the dict \<open>map_of kvs\<close>: the first entry of
  a key is the one the dict holds.
\<close>

datatype json =
    JNull
  | JBool bool
  | JInt int
  | JFloat pyfloat
  | JStr string
  | JArr "json list"
  | JObj "(string \<times> json) list"

text \<open>Numbers compare by value across bool, int and float; NaN is below, above and equal to nothing.\<close>

fun number :: "json \<Rightarrow> pyfloat option" where
  "number (JBool b) = Some (Fin (if b then 1 else 0))"
| "number (JInt i) = Some (Fin (of_int i))"
| "number (JFloat f) = Some f"
| "number v = None"

fun float_lt :: "pyfloat \<Rightarrow> pyfloat \<Rightarrow> bool" where
  "float_lt NaN y = False"
| "float_lt x NaN = False"
| "float_lt (Fin a) (Fin b) = (a < b)"
| "float_lt (Fin a) PosInf = True"
| "float_lt (Fin a) NegInf = False"
| "float_lt PosInf y = False"
| "float_lt NegInf NegInf = False"
| "float_lt NegInf y = True"

definition float_eq :: "pyfloat \<Rightarrow> pyfloat \<Rightarrow> bool" where
  "float_eq x y = (x \<noteq> NaN \<and> x = y)"

definition float_ge :: "pyfloat \<Rightarrow> pyfloat \<Rightarrow> bool" where
  "float_ge x y = (float_lt y x \<or> float_eq x y)"

text \<open>Python's \<^verbatim>\<open>==\<close> on parsed values.\<close>

fun py_eq :: "json \<Rightarrow> json \<Rightarrow> bool" where
  "py_eq (JArr xs) (JArr ys) = list_all2 py_eq xs ys"
| "py_eq (JObj kvs) (JObj kws) =
     (set (map fst kvs) = set (map fst kws) \<and>
      list_all (\<lambda>(k, v). if map_of kvs k = Some v
                  then (case map_of kws k of None \<Rightarrow> False | Some w \<Rightarrow> py_eq v w)
                  else True) kvs)"
| "py_eq (JStr s) (JStr t) = (s = t)"
| "py_eq JNull JNull = True"
| "py_eq a b =
     (case (number a, number b) of (Some x, Some y) \<Rightarrow> float_eq x y | _ \<Rightarrow> False)"

text \<open>
  Python's \<^verbatim>\<open><\<close>: numbers by value, strings and lists lexicographically (a list
  comparison looks for the first pair of elements that are not \<^verbatim>\<open>==\<close>), and a
  \<^verbatim>\<open>TypeError\<close> for every other pair of operands.
\<close>

fun py_lt :: "json \<Rightarrow> json \<Rightarrow> py_error + bool"
  and list_lt :: "json list \<Rightarrow> json list \<Rightarrow> py_error + bool" where
  "py_lt (JStr s) (JStr t) = Inr (s < t)"
| "py_lt (JArr xs) (JArr ys) = list_lt xs ys"
| "py_lt a b =
     (case (number a, number b) of
        (Some x, Some y) \<Rightarrow> Inr (float_lt x y)
      | _ \<Rightarrow> Inl TypeError)"
| "list_lt [] ys = Inr (ys \<noteq> [])"
| "list_lt (x # xs) [] = Inr False"
| "list_lt (x # xs) (y # ys) = (if py_eq x y then list_lt xs ys else py_lt x y)"

text \<open>\<^verbatim>\<open>v[key]\<close> for a string key.\<close>

fun getitem :: "json \<Rightarrow> string \<Rightarrow> py_error + json" where
  "getitem (JObj kvs) key =
     (case map_of kvs key of None \<Rightarrow> Inl (KeyError key) | Some x \<Rightarrow> Inr x)"
| "getitem v key = Inl TypeError"

text \<open>\<^verbatim>\<open>v[i]\<close> for a non-negative integer index; the keys of a parsed dict are strings.\<close>

fun getitem_index :: "json \<Rightarrow> nat \<Rightarrow> py_error + json" where
  "getitem_index (JArr xs) i = (if i < length xs then Inr (xs ! i) else Inl IndexError)"
| "getitem_index (JStr s) i = (if i < length s then Inr (JStr [s ! i]) else Inl IndexError)"
| "getitem_index (JObj kvs) i = Inl (KeyError (if i = 0 then ''0'' else ''1''))"
| "getitem_index v i = Inl TypeError"

text \<open>\<^verbatim>\<open>len(v)\<close>.\<close>

fun py_len :: "json \<Rightarrow> py_error + nat" where
  "py_len (JArr xs) = Inr (length xs)"
| "py_len (JStr s) = Inr (length s)"
| "py_len (JObj kvs) = Inr (length (remdups (map fst kvs)))"
| "py_len v = Inl TypeError"

text \<open>The elements \<^verbatim>\<open>for x in v\<close> runs over.\<close>

fun py_iter :: "json \<Rightarrow> py_error + json list" where
  "py_iter (JArr xs) = Inr xs"
| "py_iter (JStr s) = Inr (map (\<lambda>c. JStr [c]) s)"
| "py_iter (JObj kvs) = Inr (map JStr (remdups (map fst kvs)))"
| "py_iter v = Inl TypeError"

text \<open>\<^verbatim>\<open>d.get(key, default)\<close>; only a dict has the method.\<close>

fun dict_get :: "json \<Rightarrow> string \<Rightarrow> json \<Rightarrow> py_error + json" where
  "dict_get (JObj kvs) key dflt =
     Inr (case map_of kvs key of None \<Rightarrow> dflt | Some x \<Rightarrow> x)"
| "dict_get v key dflt = Inl AttributeError"

section \<open>Completion Oracle\<close>

definition FAIL_STATUSES :: "string set" where
  "FAIL_STATUSES =
     {''Failed - Agent couldn't be set up'',
      ''Failed'',
      ''Failed - Simulation crashed'',
      ''Failed - Agent crashed''}"

text \<open>\<^verbatim>\<open>status in FAIL_STATUSES\<close>: a list or a dict cannot be hashed.\<close>

fun in_FAIL_STATUSES :: "json \<Rightarrow> py_error + bool" where
  "in_FAIL_STATUSES (JStr s) = Inr (s \<in> FAIL_STATUSES)"
| "in_FAIL_STATUSES (JArr xs) = Inl TypeError"
| "in_FAIL_STATUSES (JObj kvs) = Inl TypeError"
| "in_FAIL_STATUSES v = Inr False"

text \<open>
  What \<^verbatim>\<open>needs_rerun\<close> finds at the job's result file: no file, a file that cannot be
  opened or parsed (the \<^verbatim>\<open>except Exception\<close> branch), or the parsed value.
\<close>

datatype file_state = Missing | Unreadable | Parsed json

text \<open>The body of the second \<^verbatim>\<open>try\<close>: the checkpoint and its progress.\<close>

definition checkpoint_progress :: "json \<Rightarrow> py_error + (json \<times> json)" where
  "checkpoint_progress evaluation_data =
     (case getitem evaluation_data ''_checkpoint'' of
        Inl e \<Rightarrow> Inl e
      | Inr checkpoint \<Rightarrow>
          (case getitem checkpoint ''progress'' of
             Inl e \<Rightarrow> Inl e
           | Inr progress \<Rightarrow> Inr (checkpoint, progress)))"

text \<open>\<^verbatim>\<open>len(progress) < 2 or progress[0] < progress[1]\<close>, evaluated left to right.\<close>

definition progress_incomplete :: "json \<Rightarrow> py_error + bool" where
  "progress_incomplete progress =
     (case py_len progress of
        Inl e \<Rightarrow> Inl e
      | Inr n \<Rightarrow>
          if n < 2 then Inr True
          else (case getitem_index progress 0 of
                  Inl e \<Rightarrow> Inl e
                | Inr completed \<Rightarrow>
                    (case getitem_index progress 1 of
                       Inl e \<Rightarrow> Inl e
                     | Inr total_n \<Rightarrow> py_lt completed total_n)))"

text \<open>The loop over the records, left at the first failure status.\<close>

fun scan_records :: "json list \<Rightarrow> py_error + bool" where
  "scan_records [] = Inr False"
| "scan_records (record # records) =
     (case dict_get record ''status'' JNull of
        Inl e \<Rightarrow> Inl e
      | Inr status \<Rightarrow>
          (case in_FAIL_STATUSES status of
             Inl e \<Rightarrow> Inl e
           | Inr failed \<Rightarrow> if failed then Inr True else scan_records records))"

definition needs_rerun :: "file_state \<Rightarrow> py_error + bool" where
  "needs_rerun result_file =
     (case result_file of
        Missing \<Rightarrow> Inr True
      | Unreadable \<Rightarrow> Inr True
      | Parsed evaluation_data \<Rightarrow>
          (case checkpoint_progress evaluation_data of
             Inl e \<Rightarrow> if is_KeyError e then Inr True else Inl e
           | Inr (checkpoint, progress) \<Rightarrow>
               (case progress_incomplete progress of
                  Inl e \<Rightarrow> Inl e
                | Inr incomplete \<Rightarrow>
                    if incomplete then Inr True
                    else (case dict_get checkpoint ''records'' (JArr []) of
                            Inl e \<Rightarrow> Inl e
                          | Inr records \<Rightarrow>
                              (case py_iter records of
                                 Inl e \<Rightarrow> Inl e
                               | Inr rs \<Rightarrow> scan_records rs)))))"

section \<open>Configurations and jobs\<close>

text \<open>
  A configuration is a dict; its keys are the fields of the record, an absent key is
  \<open>None\<close>.
\<close>

record config =
  agent :: "string option"
  checkpoint :: "string option"
  benchmark :: "string option"
  route_path :: "string option"
  seeds :: "int list option"
  tries :: "int option"
  out_root :: "string option"
  carla_root :: "string option"
  repo_root :: "string option"
  agent_file :: "string option"
  carla_port :: "int option"
  carla_tm_port :: "int option"
  timeout :: "int option"

text \<open>The job dict that \<^verbatim>\<open>build_job_queue\<close> creates; paths are their strings.\<close>

record job =
  cfg :: config
  route :: string
  route_id :: string
  seed :: int
  viz_path :: string
  result_file :: string
  log_file :: string
  err_file :: string
  remaining_tries :: int

section \<open>Retry Controller\<close>

text \<open>
  The lines \<^verbatim>\<open>process_job\<close> prints; each also carries the job's route id and seed,
  which never change.
\<close>

datatype message = SKIP | RUN int | DONE | RETRY int | FAIL

text \<open>
  The state \<^verbatim>\<open>process_job\<close> works on: the job dict it mutates, the world outside the
  program (the file system and the simulator, of any type \<open>'w\<close>) and the lines printed
  so far. Two fields observe the run and are read by no step: \<open>launches\<close> counts the
  calls of \<^verbatim>\<open>launch_job\<close>, \<open>tries_trace\<close> lists the values
  \<^verbatim>\<open>job["remaining_tries"]\<close> has held, the initial one first.
\<close>

record 'w run_state =
  cur_job :: job
  world :: 'w
  stdout :: "message list"
  launches :: nat
  tries_trace :: "int list"

text \<open>How one pass through the body of the \<^verbatim>\<open>while\<close> loop ends.\<close>

datatype flow = Return bool | Raise py_error | Continue

text \<open>The end of the loop body: the \<^verbatim>\<open>[RETRY]\<close> line when tries remain.\<close>

definition retry_notice :: "'w run_state \<Rightarrow> flow \<times> 'w run_state" where
  "retry_notice s =
     (Continue,
      if remaining_tries (cur_job s) > 0
      then s\<lparr>stdout := stdout s @ [RETRY (remaining_tries (cur_job s))]\<rparr>
      else s)"

text \<open>
  The statements from \<^verbatim>\<open>launch_job(job)\<close> on. The evaluator is the parameter
  \<open>launch_job\<close>: from the job and the world it gives whether the process exited with
  code zero, and the world it leaves. \<open>result_at\<close> reads a path of the world.
\<close>

definition run_attempt ::
  "(job \<Rightarrow> 'w \<Rightarrow> bool \<times> 'w) \<Rightarrow> ('w \<Rightarrow> string \<Rightarrow> file_state) \<Rightarrow>
   'w run_state \<Rightarrow> flow \<times> 'w run_state" where
  "run_attempt launch_job result_at s =
     (let (success, w) = launch_job (cur_job s) (world s);
          s1 = s\<lparr>world := w, launches := Suc (launches s)\<rparr>;
          s2 = s1\<lparr>cur_job := (cur_job s1)\<lparr>remaining_tries := remaining_tries (cur_job s1) - 1\<rparr>,
                  tries_trace := tries_trace s1 @ [remaining_tries (cur_job s1) - 1]\<rparr>
      in if success
         then (case needs_rerun (result_at (world s2) (result_file (cur_job s2))) of
                 Inl e \<Rightarrow> (Raise e, s2)
               | Inr rerun \<Rightarrow>
                   if \<not> rerun then (Return True, s2\<lparr>stdout := stdout s2 @ [DONE]\<rparr>)
                   else retry_notice s2)
         else retry_notice s2)"

text \<open>The body of the \<^verbatim>\<open>while\<close> loop.\<close>

definition loop_body ::
  "(job \<Rightarrow> 'w \<Rightarrow> bool \<times> 'w) \<Rightarrow> ('w \<Rightarrow> string \<Rightarrow> file_state) \<Rightarrow> int \<Rightarrow>
   'w run_state \<Rightarrow> flow \<times> 'w run_state" where
  "loop_body launch_job result_at total_tries s =
     (case needs_rerun (result_at (world s) (result_file (cur_job s))) of
        Inl e \<Rightarrow> (Raise e, s)
      | Inr rerun \<Rightarrow>
          if \<not> rerun then (Return True, s\<lparr>stdout := stdout s @ [SKIP]\<rparr>)
          else
            let attempt_idx = total_tries - remaining_tries (cur_job s) + 1
            in run_attempt launch_job result_at (s\<lparr>stdout := stdout s @ [RUN attempt_idx]\<rparr>))"

text \<open>The loop: it ends by a \<^verbatim>\<open>return\<close>, by an exception or with the \<^verbatim>\<open>[FAIL]\<close> line.\<close>

function process_loop ::
  "(job \<Rightarrow> 'w \<Rightarrow> bool \<times> 'w) \<Rightarrow> ('w \<Rightarrow> string \<Rightarrow> file_state) \<Rightarrow> int \<Rightarrow>
   'w run_state \<Rightarrow> (py_error + bool) \<times> 'w run_state" where
  "process_loop launch_job result_at total_tries s =
     (if remaining_tries (cur_job s) > 0
      then (case loop_body launch_job result_at total_tries s of
              (Return b, s') \<Rightarrow> (Inr b, s')
            | (Raise e, s') \<Rightarrow> (Inl e, s')
            | (Continue, s') \<Rightarrow> process_loop launch_job result_at total_tries s')
      else (Inr False, s\<lparr>stdout := stdout s @ [FAIL]\<rparr>))"
  by pat_completeness auto
termination
  by (relation "measure (\<lambda>(launch_job, result_at, total_tries, s). nat (remaining_tries (cur_job s)))")
     (auto simp: loop_body_def run_attempt_def retry_notice_def Let_def
        split: sum.splits if_splits prod.splits)

definition process_job ::
  "(job \<Rightarrow> 'w \<Rightarrow> bool \<times> 'w) \<Rightarrow> ('w \<Rightarrow> string \<Rightarrow> file_state) \<Rightarrow> job \<Rightarrow> 'w \<Rightarrow>
   (py_error + bool) \<times> 'w run_state" where
  "process_job launch_job result_at j w =
     process_loop launch_job result_at (remaining_tries j)
       \<lparr>cur_job = j, world = w, stdout = [], launches = 0, tries_trace = [remaining_tries j]\<rparr>"

declare process_loop.simps [simp del]

section \<open>Config Resolver\<close>

text \<open>The loop over \<^verbatim>\<open>path_fields\<close>: every path field the dict has is expanded.\<close>

definition expand_fields :: "(string \<Rightarrow> string) \<Rightarrow> config \<Rightarrow> config" where
  "expand_fields expand_path c =
     c\<lparr>checkpoint := map_option expand_path (checkpoint c),
       route_path := map_option expand_path (route_path c),
       out_root := map_option expand_path (out_root c),
       carla_root := map_option expand_path (carla_root c),
       repo_root := map_option expand_path (repo_root c),
       agent_file := map_option expand_path (agent_file c)\<rparr>"

text \<open>\<^verbatim>\<open>dict.setdefault\<close>.\<close>

definition setdefault :: "'a option \<Rightarrow> 'a \<Rightarrow> 'a option" where
  "setdefault v d = (case v of None \<Rightarrow> Some d | Some x \<Rightarrow> Some x)"

definition set_defaults :: "config \<Rightarrow> config" where
  "set_defaults c =
     c\<lparr>carla_port := setdefault (carla_port c) 2000,
       carla_tm_port := setdefault (carla_tm_port c) 2500,
       timeout := setdefault (timeout c) 600,
       tries := setdefault (tries c) 1\<rparr>"

text \<open>The dict \<^verbatim>\<open>required_paths\<close>, in the order of its keys; a missing key raises.\<close>

definition required_paths :: "config \<Rightarrow> py_error + (string \<times> string) list" where
  "required_paths c =
     (case route_path c of None \<Rightarrow> Inl (KeyError ''route_path'') | Some rp \<Rightarrow>
      case carla_root c of None \<Rightarrow> Inl (KeyError ''carla_root'') | Some cr \<Rightarrow>
      case repo_root c of None \<Rightarrow> Inl (KeyError ''repo_root'') | Some rr \<Rightarrow>
      case agent_file c of None \<Rightarrow> Inl (KeyError ''agent_file'') | Some af \<Rightarrow>
      case checkpoint c of None \<Rightarrow> Inl (KeyError ''checkpoint'') | Some ck \<Rightarrow>
        Inr [(''route_path'', rp), (''carla_root'', cr), (''repo_root'', rr),
             (''agent_file'', af), (''checkpoint'', ck)])"

text \<open>The loop over the required paths: the first one that does not exist raises.\<close>

fun check_paths :: "(string \<Rightarrow> bool) \<Rightarrow> (string \<times> string) list \<Rightarrow> py_error option" where
  "check_paths path_exists [] = None"
| "check_paths path_exists ((name, path) # rest) =
     (if \<not> path_exists path then Some (FileNotFoundError name path)
      else check_paths path_exists rest)"

definition preprocess_config ::
  "(string \<Rightarrow> string) \<Rightarrow> (string \<Rightarrow> bool) \<Rightarrow> config \<Rightarrow> py_error + config" where
  "preprocess_config expand_path path_exists c =
     (let c1 = expand_fields expand_path c;
          c2 = set_defaults c1
      in case required_paths c2 of
           Inl e \<Rightarrow> Inl e
         | Inr paths \<Rightarrow>
             (case check_paths path_exists paths of
                Some e \<Rightarrow> Inl e
              | None \<Rightarrow> Inr c2))"

section \<open>Route Discovery\<close>

text \<open>\<^verbatim>\<open>str.rfind\<close> for one character: the last index that holds it.\<close>

fun rfind :: "char \<Rightarrow> string \<Rightarrow> nat option" where
  "rfind c [] = None"
| "rfind c (x # xs) =
     (case rfind c xs of
        Some i \<Rightarrow> Some (Suc i)
      | None \<Rightarrow> if x = c then Some 0 else None)"

text \<open>
  \<^verbatim>\<open>PurePath.suffix\<close> and \<^verbatim>\<open>PurePath.stem\<close> of a file name: the name is cut at its
  last dot when that dot is neither its first nor its last character.
\<close>

definition suffix :: "string \<Rightarrow> string" where
  "suffix name =
     (case rfind CHR ''.'' name of
        Some i \<Rightarrow> if 0 < i \<and> i + 1 < length name then drop i name else []
      | None \<Rightarrow> [])"

definition stem :: "string \<Rightarrow> string" where
  "stem name =
     (case rfind CHR ''.'' name of
        Some i \<Rightarrow> if 0 < i \<and> i + 1 < length name then take i name else name
      | None \<Rightarrow> name)"

text \<open>
  \<^verbatim>\<open>discover_routes\<close>, on the names \<^verbatim>\<open>route_dir.iterdir()\<close> yields, in the order it
  yields them. The paths of one directory are ordered as their names are.
\<close>

definition discover_routes :: "string list \<Rightarrow> string list" where
  "discover_routes entries = sort (filter (\<lambda>p. suffix p = ''.xml'') entries)"

section \<open>Job Queue Builder\<close>

text \<open>\<^verbatim>\<open>str.lower\<close>.\<close>

definition lower_char :: "char \<Rightarrow> char" where
  "lower_char c =
     (let n = of_char c :: nat
      in if (65 \<le> n \<and> n \<le> 90) \<or> (192 \<le> n \<and> n \<le> 222 \<and> n \<noteq> 215)
         then char_of (n + 32) else c)"

definition lower :: "string \<Rightarrow> string" where
  "lower s = map lower_char s"

text \<open>\<^verbatim>\<open>str.split(sep)\<close> for a separator of one character.\<close>

fun split :: "char \<Rightarrow> string \<Rightarrow> string list" where
  "split sep [] = [[]]"
| "split sep (x # xs) =
     (if x = sep then [] # split sep xs
      else (x # hd (split sep xs)) # tl (split sep xs))"

text \<open>\<^verbatim>\<open>str.zfill(width)\<close>: zeros go after a leading sign.\<close>

definition zfill :: "string \<Rightarrow> nat \<Rightarrow> string" where
  "zfill s width =
     (if length s \<ge> width then s
      else (case s of
              [] \<Rightarrow> replicate width CHR ''0''
            | c # cs \<Rightarrow>
                if c = CHR ''+'' \<or> c = CHR ''-''
                then c # replicate (width - length s) CHR ''0'' @ cs
                else replicate (width - length s) CHR ''0'' @ s))"

text \<open>\<^verbatim>\<open>str\<close> of an int.\<close>

fun str_nat :: "nat \<Rightarrow> string" where
  "str_nat n =
     (if n < 10 then [char_of (48 + n)]
      else str_nat (n div 10) @ [char_of (48 + n mod 10)])"

definition str_int :: "int \<Rightarrow> string" where
  "str_int i = (if i < 0 then CHR ''-'' # str_nat (nat (- i)) else str_nat (nat i))"

text \<open>
  The operating system, as far as the builder uses it: \<^verbatim>\<open>expand_path\<close> of the source,
  the path \<^verbatim>\<open>Path(a) / b\<close>, and on a file system of any type \<open>'fs\<close> the test
  \<^verbatim>\<open>Path.exists\<close>, the names \<^verbatim>\<open>Path.iterdir\<close> yields in its order, and
  \<^verbatim>\<open>Path.mkdir(parents=True, exist_ok=True)\<close>.
\<close>

record 'fs os =
  expand_path :: "string \<Rightarrow> string"
  joinpath :: "string \<Rightarrow> string \<Rightarrow> string"
  path_exists :: "'fs \<Rightarrow> string \<Rightarrow> bool"
  iterdir :: "'fs \<Rightarrow> string \<Rightarrow> string list"
  mkdir :: "string \<Rightarrow> 'fs \<Rightarrow> 'fs"

text \<open>The job dict of one route; \<open>name\<close> is the file name of the route in \<open>route_dir\<close>.\<close>

definition make_job ::
  "'fs os \<Rightarrow> config \<Rightarrow> nat \<Rightarrow> int \<Rightarrow> string \<Rightarrow> string \<Rightarrow> string \<Rightarrow> int \<Rightarrow> job" where
  "make_job os c fill_zeros seed_int base_dir route_dir name tries_left =
     (let route_suffix = last (split CHR ''_'' (stem name));
          rid = zfill route_suffix fill_zeros
      in \<lparr>cfg = c,
          route = joinpath os route_dir name,
          route_id = rid,
          seed = seed_int,
          viz_path = joinpath os (joinpath os base_dir ''viz'') rid,
          result_file = joinpath os (joinpath os base_dir ''res'') (rid @ ''_res.json''),
          log_file = joinpath os (joinpath os base_dir ''out'') (rid @ ''_out.log''),
          err_file = joinpath os (joinpath os base_dir ''err'') (rid @ ''_err.log''),
          remaining_tries = tries_left\<rparr>)"

text \<open>The loop over the routes; the state is the file system and the queue.\<close>

fun route_loop ::
  "'fs os \<Rightarrow> config \<Rightarrow> nat \<Rightarrow> int \<Rightarrow> string \<Rightarrow> string \<Rightarrow> string list \<Rightarrow>
   'fs \<times> job list \<Rightarrow> py_error + ('fs \<times> job list)" where
  "route_loop os c fill_zeros seed_int base_dir route_dir [] st = Inr st"
| "route_loop os c fill_zeros seed_int base_dir route_dir (name # names) (fs, job_queue) =
     (let fs' = mkdir os (joinpath os base_dir ''viz'') fs
      in case tries c of
           None \<Rightarrow> Inl (KeyError ''tries'')
         | Some t \<Rightarrow>
             route_loop os c fill_zeros seed_int base_dir route_dir names
               (fs', job_queue @ [make_job os c fill_zeros seed_int base_dir route_dir name t]))"

text \<open>The loop over the seeds.\<close>

fun seed_loop ::
  "'fs os \<Rightarrow> config \<Rightarrow> string \<Rightarrow> nat \<Rightarrow> string \<Rightarrow> string list \<Rightarrow> int list \<Rightarrow>
   'fs \<times> job list \<Rightarrow> py_error + ('fs \<times> job list)" where
  "seed_loop os c bench fill_zeros route_dir routes [] st = Inr st"
| "seed_loop os c bench fill_zeros route_dir routes (seed_int # seeds_left) (fs, job_queue) =
     (case out_root c of
        None \<Rightarrow> Inl (KeyError ''out_root'')
      | Some out \<Rightarrow>
          (case agent c of
             None \<Rightarrow> Inl (KeyError ''agent'')
           | Some ag \<Rightarrow>
               let base_dir = joinpath os (joinpath os (joinpath os out ag) bench) (str_int seed_int);
                   fs' = fold (\<lambda>sub. mkdir os (joinpath os base_dir sub))
                           [''run'', ''res'', ''out'', ''err''] fs
               in case route_loop os c fill_zeros seed_int base_dir route_dir routes
                         (fs', job_queue) of
                    Inl e \<Rightarrow> Inl e
                  | Inr st \<Rightarrow> seed_loop os c bench fill_zeros route_dir routes seeds_left st))"

text \<open>The loop over the configurations.\<close>

fun config_loop ::
  "'fs os \<Rightarrow> config list \<Rightarrow> 'fs \<times> job list \<Rightarrow> py_error + ('fs \<times> job list)" where
  "config_loop os [] st = Inr st"
| "config_loop os (raw_cfg # configs) (fs, job_queue) =
     (case preprocess_config (expand_path os) (path_exists os fs) raw_cfg of
        Inl e \<Rightarrow> Inl e
      | Inr c \<Rightarrow>
          (case route_path c of
             None \<Rightarrow> Inl (KeyError ''route_path'')
           | Some route_dir \<Rightarrow>
               let routes = discover_routes (iterdir os fs route_dir)
               in case benchmark c of
                    None \<Rightarrow> Inl (KeyError ''benchmark'')
                  | Some bench \<Rightarrow>
                      let fill_zeros = (if lower bench = ''bench2drive'' then 3 else 2);
                          seed_list = (case seeds c of None \<Rightarrow> [1] | Some l \<Rightarrow> l)
                      in case seed_loop os c bench fill_zeros route_dir routes seed_list
                                (fs, job_queue) of
                           Inl e \<Rightarrow> Inl e
                         | Inr st \<Rightarrow> config_loop os configs st))"

definition build_job_queue :: "'fs os \<Rightarrow> 'fs \<Rightarrow> config list \<Rightarrow> py_error + job list" where
  "build_job_queue os fs configs =
     (case config_loop os configs (fs, []) of
        Inl e \<Rightarrow> Inl e
      | Inr (fs', job_queue) \<Rightarrow> Inr job_queue)"

section \<open>Predicates and examples for the properties\<close>

text \<open>The state after the \<^verbatim>\<open>[RUN ]\<close> line, the launch that leaves the world \<open>w\<close>, and the decrement.\<close>

definition launched :: "int \<Rightarrow> 'w \<Rightarrow> 'w run_state \<Rightarrow> 'w run_state" where
  "launched total_tries w s =
     s\<lparr>stdout := stdout s @ [RUN (total_tries - remaining_tries (cur_job s) + 1)],
       world := w,
       launches := Suc (launches s),
       cur_job := (cur_job s)\<lparr>remaining_tries := remaining_tries (cur_job s) - 1\<rparr>,
       tries_trace := tries_trace s @ [remaining_tries (cur_job s) - 1]\<rparr>"

text \<open>
  The job that the queue builder makes for the route file \<^verbatim>\<open>route_7.xml\<close> of a
  configuration like the shipped one, with absolute paths (lemma \<open>build_example\<close>).
\<close>

definition example_job :: job where
  "example_job =
     \<lparr>cfg = \<lparr>agent = Some ''simlingo'',
              checkpoint = Some ''/ckpts/pytorch_model.pt'',
              benchmark = Some ''bench2drive'',
              route_path = Some ''/data/bench2drive_split'',
              seeds = Some [1],
              tries = Some 1,
              out_root = Some ''/eval_results/Bench2Drive'',
              carla_root = Some ''/software/carla0915'',
              repo_root = Some ''/models/simlingo'',
              agent_file = Some ''/models/simlingo/team_code/agent_simlingo.py'',
              carla_port = Some 2000,
              carla_tm_port = Some 2500,
              timeout = Some 600\<rparr>,
      route = ''/data/bench2drive_split/route_7.xml'',
      route_id = ''007'',
      seed = 1,
      viz_path = ''/eval_results/Bench2Drive/simlingo/bench2drive/1/viz/007'',
      result_file = ''/eval_results/Bench2Drive/simlingo/bench2drive/1/res/007_res.json'',
      log_file = ''/eval_results/Bench2Drive/simlingo/bench2drive/1/out/007_out.log'',
      err_file = ''/eval_results/Bench2Drive/simlingo/bench2drive/1/err/007_err.log'',
      remaining_tries = 1\<rparr>"

text \<open>A result file of a finished route: one route of one, and a record that completed.\<close>

definition complete_result :: json where
  "complete_result =
     JObj [(''_checkpoint'',
            JObj [(''progress'', JArr [JInt 1, JInt 1]),
                  (''records'', JArr [JObj [(''status'', JStr ''Completed'')]])])]"

text \<open>
  The invariant of the counter: the values it has held never increase, none of them is
  below the current value, the last of them is the current value, and the current value is
  not negative.
\<close>

definition trace_ok :: "'w run_state \<Rightarrow> bool" where
  "trace_ok s =
     (sorted_wrt (\<lambda>a b. b \<le> a) (tries_trace s) \<and>
      list_all (\<lambda>x. remaining_tries (cur_job s) \<le> x) (tries_trace s) \<and>
      tries_trace s \<noteq> [] \<and>
      last (tries_trace s) = remaining_tries (cur_job s) \<and>
      0 \<le> remaining_tries (cur_job s))"

text \<open>An attempt record whose status is one of the failure statuses.\<close>

fun failed_record :: "json \<Rightarrow> bool" where
  "failed_record (JObj kvs) =
     (case map_of kvs ''status'' of Some (JStr s) \<Rightarrow> s \<in> FAIL_STATUSES | _ \<Rightarrow> False)"
| "failed_record v = False"

text \<open>The values Python can hash: all but lists and dicts.\<close>

fun hashable :: "json \<Rightarrow> bool" where
  "hashable (JArr xs) = False"
| "hashable (JObj kvs) = False"
| "hashable v = True"

text \<open>An attempt record as the evaluator writes it: an object whose status, if it has one, can be hashed.\<close>

fun well_formed_record :: "json \<Rightarrow> bool" where
  "well_formed_record (JObj kvs) =
     (case map_of kvs ''status'' of None \<Rightarrow> True | Some st \<Rightarrow> hashable st)"
| "well_formed_record v = False"

text \<open>A progress indicator as the evaluator writes it: a list whose first two elements, when it has them, are numbers.\<close>

fun well_formed_progress :: "json \<Rightarrow> bool" where
  "well_formed_progress (JArr ps) =
     (length ps < 2 \<or> (number (ps ! 0) \<noteq> None \<and> number (ps ! 1) \<noteq> None))"
| "well_formed_progress v = False"

text \<open>
  The result files that lack a full progress pair: no file, a file that cannot be opened
  or parsed, an object without \<^verbatim>\<open>_checkpoint\<close>, a checkpoint object without
  \<^verbatim>\<open>progress\<close>, a progress of fewer than two elements.
\<close>

fun incomplete_result :: "file_state \<Rightarrow> bool" where
  "incomplete_result Missing = True"
| "incomplete_result Unreadable = True"
| "incomplete_result (Parsed (JObj kvs)) =
     (case map_of kvs ''_checkpoint'' of
        None \<Rightarrow> True
      | Some (JObj cp) \<Rightarrow>
          (case map_of cp ''progress'' of
             None \<Rightarrow> True
           | Some progress \<Rightarrow> (case py_len progress of Inl e \<Rightarrow> False | Inr n \<Rightarrow> n < 2))
      | Some v \<Rightarrow> False)"
| "incomplete_result (Parsed v) = False"

text \<open>Result files used as examples.\<close>

definition null_progress_result :: json where
  "null_progress_result = JObj [(''_checkpoint'', JObj [(''progress'', JNull)])]"

definition vacuous_result :: json where
  "vacuous_result = JObj [(''_checkpoint'', JObj [(''progress'', JArr [JInt 0, JInt 0])])]"

definition failed_result :: json where
  "failed_result =
     JObj [(''_checkpoint'',
            JObj [(''progress'', JArr [JInt 1, JInt 1]),
                  (''records'', JArr [JObj [(''status'', JStr ''Failed - Agent crashed'')]])])]"

definition null_progress_failed_result :: json where
  "null_progress_failed_result =
     JObj [(''_checkpoint'',
            JObj [(''progress'', JNull),
                  (''records'', JArr [JObj [(''status'', JStr ''Failed'')]])])]"

definition odd_record_result :: json where
  "odd_record_result =
     JObj [(''_checkpoint'',
            JObj [(''progress'', JArr [JInt 1, JInt 1]),
                  (''records'', JArr [JInt 5])])]"

text \<open>The required path fields with the paths they name once expanded, in the order they are checked.\<close>

definition expanded_paths ::
  "(string \<Rightarrow> string) \<Rightarrow> string \<Rightarrow> string \<Rightarrow> string \<Rightarrow> string \<Rightarrow> string \<Rightarrow>
   (string \<times> string) list" where
  "expanded_paths expand rp cr rr af ck =
     [(''route_path'', expand rp), (''carla_root'', expand cr),
      (''repo_root'', expand rr), (''agent_file'', expand af),
      (''checkpoint'', expand ck)]"

text \<open>A string that begins with a sign.\<close>

definition signed :: "string \<Rightarrow> bool" where
  "signed s = (case s of [] \<Rightarrow> False | c # cs \<Rightarrow> c = CHR ''+'' \<or> c = CHR ''-'')"

text \<open>
  The route id of a job as the builder computes it, from a route file \<open>name\<close> with the
  \<^verbatim>\<open>.xml\<close> extension: \<^verbatim>\<open>zfill\<close> of the last token of the stem, to width 3 or 2.
\<close>

definition route_id_derived :: "'fs os \<Rightarrow> job \<Rightarrow> bool" where
  "route_id_derived os j =
     (\<exists>bench route_dir name.
        benchmark (cfg j) = Some bench \<and> route_path (cfg j) = Some route_dir \<and>
        suffix name = ''.xml'' \<and> route j = joinpath os route_dir name \<and>
        (let token = last (split CHR ''_'' (stem name));
             width = (if lower bench = ''bench2drive'' then 3 else 2)
         in route_id j = zfill token width \<and>
            (\<not> signed token \<longrightarrow>
               route_id j = replicate (width - length token) CHR ''0'' @ token)))"

text \<open>The shipped configuration with absolute paths, and a system with one route file.\<close>

definition example_os :: "unit os" where
  "example_os =
     \<lparr>expand_path = (\<lambda>p. p),
      joinpath = (\<lambda>a b. a @ ''/'' @ b),
      path_exists = (\<lambda>fs p. True),
      iterdir = (\<lambda>fs d. [''route_7.xml'']),
      mkdir = (\<lambda>p fs. fs)\<rparr>"

text \<open>The example configuration before its defaults are filled in.\<close>

definition example_raw_cfg :: config where
  "example_raw_cfg =
     (cfg example_job)\<lparr>carla_port := None, carla_tm_port := None, timeout := None, tries := None\<rparr>"

text \<open>The directory of one seed.\<close>

definition seed_dir :: "'fs os \<Rightarrow> string \<Rightarrow> string \<Rightarrow> string \<Rightarrow> int \<Rightarrow> string" where
  "seed_dir os out ag bench seed_int =
     joinpath os (joinpath os (joinpath os out ag) bench) (str_int seed_int)"

text \<open>
  Following the spec: a benchmark name that equals \<^verbatim>\<open>bench2drive\<close> case-insensitively.
  Each character is the lower-case or the upper-case form of the one at its place.
\<close>

definition bench2drive_cases :: "(char \<times> char) list" where
  "bench2drive_cases =
     [(CHR ''b'', CHR ''B''), (CHR ''e'', CHR ''E''), (CHR ''n'', CHR ''N''),
      (CHR ''c'', CHR ''C''), (CHR ''h'', CHR ''H''), (CHR ''2'', CHR ''2''),
      (CHR ''d'', CHR ''D''), (CHR ''r'', CHR ''R''), (CHR ''i'', CHR ''I''),
      (CHR ''v'', CHR ''V''), (CHR ''e'', CHR ''E'')]"

definition bench2drive_any_case :: "string \<Rightarrow> bool" where
  "bench2drive_any_case s = list_all2 (\<lambda>c (lo, up). c = lo \<or> c = up) s bench2drive_cases"

text \<open>
  Following the spec: a token padded with zeros to a width. A token as long as the width or
  longer is kept; the zeros of \<^verbatim>\<open>str.zfill\<close> go after a leading sign.
\<close>

definition zero_padded :: "nat \<Rightarrow> string \<Rightarrow> string" where
  "zero_padded width token =
     (if signed token
      then hd token # replicate (width - length token) CHR ''0'' @ tl token
      else replicate (width - length token) CHR ''0'' @ token)"

text \<open>Following the spec: the last \<^verbatim>\<open>_\<close>-delimited token of a stem.\<close>

definition last_token :: "string \<Rightarrow> string \<Rightarrow> bool" where
  "last_token token st =
     (CHR ''_'' \<notin> set token \<and> (st = token \<or> (\<exists>pre. st = pre @ CHR ''_'' # token)))"

text \<open>
  Following the spec: \<open>rid\<close> is the route identifier of the route file \<open>name\<close> under the
  benchmark \<open>bench\<close>: the last \<^verbatim>\<open>_\<close>-delimited token of the stem of the name, padded
  with zeros to width 3 for \<^verbatim>\<open>bench2drive\<close> in any case and to width 2 otherwise.
\<close>

definition route_id_of :: "string \<Rightarrow> string \<Rightarrow> string \<Rightarrow> bool" where
  "route_id_of bench name rid =
     (\<exists>st token. st \<noteq> [] \<and> name = st @ ''.xml'' \<and> last_token token st \<and>
        rid = zero_padded (if bench2drive_any_case bench then 3 else 2) token)"

text \<open>The job \<open>j\<close> belongs to the configuration \<open>c\<close>, a seed and a route file, and has the route identifier of that file.\<close>

definition job_of_route :: "'fs os \<Rightarrow> config \<Rightarrow> string \<Rightarrow> string \<Rightarrow> job \<Rightarrow> int \<times> string \<Rightarrow> bool" where
  "job_of_route os c bench route_dir j = (\<lambda>(sd, name).
     cfg j = c \<and> seed j = sd \<and> route j = joinpath os route_dir name \<and>
     route_id_of bench name (route_id j))"

text \<open>The jobs of \<^verbatim>\<open>route_7.xml\<close> when the benchmark is written \<^verbatim>\<open>Bench2Drive\<close>, and for another benchmark.\<close>

definition example_mixed_job :: job where
  "example_mixed_job =
     example_job
       \<lparr>cfg := (cfg example_job)\<lparr>benchmark := Some ''Bench2Drive''\<rparr>,
        viz_path := ''/eval_results/Bench2Drive/simlingo/Bench2Drive/1/viz/007'',
        result_file := ''/eval_results/Bench2Drive/simlingo/Bench2Drive/1/res/007_res.json'',
        log_file := ''/eval_results/Bench2Drive/simlingo/Bench2Drive/1/out/007_out.log'',
        err_file := ''/eval_results/Bench2Drive/simlingo/Bench2Drive/1/err/007_err.log''\<rparr>"

definition example_other_job :: job where
  "example_other_job =
     example_job
       \<lparr>cfg := (cfg example_job)\<lparr>benchmark := Some ''longest6''\<rparr>,
        route_id := ''07'',
        viz_path := ''/eval_results/Bench2Drive/simlingo/longest6/1/viz/07'',
        result_file := ''/eval_results/Bench2Drive/simlingo/longest6/1/res/07_res.json'',
        log_file := ''/eval_results/Bench2Drive/simlingo/longest6/1/out/07_out.log'',
        err_file := ''/eval_results/Bench2Drive/simlingo/longest6/1/err/07_err.log''\<rparr>"

section \<open>Properties of the Retry Controller\<close>

lemma process_loop_exhausted:
  "remaining_tries (cur_job s) \<le> 0 \<Longrightarrow>
   process_loop launch_job result_at total_tries s = (Inr False, s\<lparr>stdout := stdout s @ [FAIL]\<rparr>)"
  by (subst process_loop.simps) simp

lemma loop_body_skip:
  "needs_rerun (result_at (world s) (result_file (cur_job s))) = Inr False \<Longrightarrow>
   loop_body launch_job result_at total_tries s = (Return True, s\<lparr>stdout := stdout s @ [SKIP]\<rparr>)"
  by (simp add: loop_body_def)

lemma loop_body_launch_fails:
  assumes "needs_rerun (result_at (world s) (result_file (cur_job s))) = Inr True"
    and "launch_job (cur_job s) (world s) = (False, w)"
  shows "loop_body launch_job result_at total_tries s = retry_notice (launched total_tries w s)"
  using assms by (simp add: loop_body_def run_attempt_def launched_def)




lemma process_job_skip:
  assumes "0 < remaining_tries j"
    and "needs_rerun (result_at w (result_file j)) = Inr False"
  shows "process_job launch_job result_at j w =
     (Inr True, \<lparr>cur_job = j, world = w, stdout = [SKIP], launches = 0,
                 tries_trace = [remaining_tries j]\<rparr>)"
  using assms by (simp add: process_job_def process_loop.simps loop_body_skip)

lemma process_job_no_tries:
  assumes "remaining_tries j \<le> 0"
  shows "process_job launch_job result_at j w =
     (Inr False, \<lparr>cur_job = j, world = w, stdout = [FAIL], launches = 0,
                  tries_trace = [remaining_tries j]\<rparr>)"
  using assms by (simp add: process_job_def process_loop_exhausted)

lemma needs_rerun_complete_result: "needs_rerun (Parsed complete_result) = Inr False"
  by (simp add: complete_result_def needs_rerun_def checkpoint_progress_def
      progress_incomplete_def FAIL_STATUSES_def)

text \<open>
  C2, as stated, fails. A job whose retry budget is 0 never enters the loop: with a result
  file that reports completion, \<^verbatim>\<open>process_job\<close> prints \<^verbatim>\<open>[FAIL]\<close> and returns
  \<^verbatim>\<open>False\<close>, because the loop guard \<^verbatim>\<open>remaining_tries > 0\<close> is tested before the
  oracle is asked.
\<close>

theorem complete_without_tries_fails:
  "needs_rerun (Parsed complete_result) = Inr False \<and>
   process_job (\<lambda>j w. (True, w)) (\<lambda>w p. Parsed complete_result)
     (example_job\<lparr>remaining_tries := 0\<rparr>) () =
     (Inr False,
      \<lparr>cur_job = example_job\<lparr>remaining_tries := 0\<rparr>, world = (), stdout = [FAIL],
        launches = 0, tries_trace = [0]\<rparr>)"
  by (simp add: needs_rerun_complete_result process_job_no_tries)

text \<open>
  C2, amended. For a job with a positive retry budget whose result file reports
  completion before any attempt, \<^verbatim>\<open>process_job\<close> prints \<^verbatim>\<open>[SKIP]\<close> and returns
  \<^verbatim>\<open>True\<close>; the evaluator is never launched and the world is left as it was.
\<close>

theorem complete_job_is_skipped:
  assumes "0 < remaining_tries j"
    and "needs_rerun (result_at w (result_file j)) = Inr False"
  shows "fst (process_job launch_job result_at j w) = Inr True \<and>
         launches (snd (process_job launch_job result_at j w)) = 0 \<and>
         stdout (snd (process_job launch_job result_at j w)) = [SKIP] \<and>
         world (snd (process_job launch_job result_at j w)) = w"
  using assms by (simp add: process_job_skip)

theorem complete_job_is_skipped_witness:
  "0 < remaining_tries example_job \<and>
   needs_rerun (Parsed complete_result) = Inr False \<and>
   fst (process_job (\<lambda>j w. (True, w)) (\<lambda>w p. Parsed complete_result) example_job ()) =
     Inr True \<and>
   launches (snd (process_job (\<lambda>j w. (True, w)) (\<lambda>w p. Parsed complete_result)
     example_job ())) = 0"
  using complete_job_is_skipped [of example_job "\<lambda>w p. Parsed complete_result" "()"
      "\<lambda>j w. (True, w)"]
  by (simp add: needs_rerun_complete_result example_job_def)







lemma trace_ok_stdout: "trace_ok (s\<lparr>stdout := out\<rparr>) = trace_ok s"
  by (simp add: trace_ok_def)

lemma loop_body_trace_ok:
  assumes "trace_ok s" and "0 < remaining_tries (cur_job s)"
  shows "trace_ok (snd (loop_body launch_job result_at total_tries s)) \<and>
         hd (tries_trace (snd (loop_body launch_job result_at total_tries s))) = hd (tries_trace s)"
  using assms
  by (auto simp: loop_body_def run_attempt_def retry_notice_def Let_def trace_ok_def
      sorted_wrt_append list_all_iff split: sum.splits prod.splits)

lemma process_loop_trace_ok:
  assumes "trace_ok s"
  shows "trace_ok (snd (process_loop launch_job result_at total_tries s)) \<and>
         hd (tries_trace (snd (process_loop launch_job result_at total_tries s))) = hd (tries_trace s)"
  using assms
proof (induction launch_job result_at total_tries s rule: process_loop.induct)
  case (1 launch_job result_at total_tries s)
  show ?case
  proof (cases "0 < remaining_tries (cur_job s)")
    case False
    with "1.prems" show ?thesis by (simp add: process_loop_exhausted trace_ok_stdout)
  next
    case True
    obtain f s' where b: "loop_body launch_job result_at total_tries s = (f, s')"
      by (cases "loop_body launch_job result_at total_tries s")
    from loop_body_trace_ok[OF "1.prems" True, of launch_job result_at total_tries] b
    have s': "trace_ok s'" "hd (tries_trace s') = hd (tries_trace s)"
      by simp_all
    show ?thesis
    proof (cases f)
      case Continue
      with "1.IH"[OF True b[symmetric] _ s'(1)] s' True b show ?thesis
        by (subst (1 2) process_loop.simps) simp
    qed (use True b s' in \<open>simp_all add: process_loop.simps\<close>)
  qed
qed

text \<open>
  C6. For a job whose retry budget is not negative at the start, the values
  \<^verbatim>\<open>job["remaining_tries"]\<close> holds during \<^verbatim>\<open>process_job\<close>, in the order it holds
  them, never increase and are never negative; the first is the budget and the last is
  the value the job is left with.
\<close>

theorem remaining_tries_never_negative:
  assumes "0 \<le> remaining_tries j"
  shows "sorted_wrt (\<lambda>a b. b \<le> a) (tries_trace (snd (process_job launch_job result_at j w))) \<and>
         list_all (\<lambda>x. 0 \<le> x) (tries_trace (snd (process_job launch_job result_at j w))) \<and>
         hd (tries_trace (snd (process_job launch_job result_at j w))) = remaining_tries j \<and>
         last (tries_trace (snd (process_job launch_job result_at j w))) =
           remaining_tries (cur_job (snd (process_job launch_job result_at j w)))"
proof -
  let ?s0 = "\<lparr>cur_job = j, world = w, stdout = [], launches = 0,
              tries_trace = [remaining_tries j]\<rparr>"
  have "trace_ok ?s0"
    using assms by (simp add: trace_ok_def)
  from process_loop_trace_ok[OF this, of launch_job result_at "remaining_tries j"]
  show ?thesis
    by (auto simp: process_job_def trace_ok_def list_all_iff)
qed

theorem remaining_tries_never_negative_witness:
  "0 \<le> remaining_tries example_job \<and>
   sorted_wrt (\<lambda>a b. b \<le> a)
     (tries_trace (snd (process_job (\<lambda>j w. (False, w)) (\<lambda>w p. Missing) example_job ()))) \<and>
   list_all (\<lambda>x. 0 \<le> x)
     (tries_trace (snd (process_job (\<lambda>j w. (False, w)) (\<lambda>w p. Missing) example_job ())))"
  using remaining_tries_never_negative [of example_job "\<lambda>j w. (False, w)" "\<lambda>w p. Missing" "()"]
  by (simp add: example_job_def)

section \<open>Properties of the Completion Oracle\<close>

text \<open>
  C4, as stated, fails. A progress that is \<^verbatim>\<open>null\<close> makes \<^verbatim>\<open>len(progress)\<close> raise
  a \<^verbatim>\<open>TypeError\<close>, which leaves \<^verbatim>\<open>needs_rerun\<close>: only \<^verbatim>\<open>KeyError\<close> is caught
  around the lookups, and the test of the progress stands outside every \<^verbatim>\<open>try\<close>.
\<close>

theorem null_progress_raises:
  "needs_rerun (Parsed null_progress_result) = Inl TypeError"
  by (simp add: null_progress_result_def needs_rerun_def checkpoint_progress_def
      progress_incomplete_def)

text \<open>
  C4, amended. For a result file that is missing, cannot be opened or parsed, has no
  \<^verbatim>\<open>_checkpoint\<close>, has a checkpoint without \<^verbatim>\<open>progress\<close>, or has a progress of
  fewer than two elements, \<^verbatim>\<open>needs_rerun\<close> returns \<^verbatim>\<open>True\<close> and raises nothing.
\<close>

theorem needs_rerun_incomplete:
  assumes "incomplete_result f"
  shows "needs_rerun f = Inr True"
proof (cases f)
  case (Parsed d)
  with assms obtain kvs where d: "d = JObj kvs" by (cases d) auto
  show ?thesis
  proof (cases "map_of kvs ''_checkpoint''")
    case None
    with Parsed d show ?thesis by (simp add: needs_rerun_def checkpoint_progress_def)
  next
    case (Some c)
    with assms Parsed d obtain cp where c: "c = JObj cp" by (cases c) auto
    show ?thesis
    proof (cases "map_of cp ''progress''")
      case None
      with Parsed d Some c show ?thesis by (simp add: needs_rerun_def checkpoint_progress_def)
    next
      case (Some p)
      with assms Parsed d \<open>map_of kvs ''_checkpoint'' = Some c\<close> c
      obtain n where "py_len p = Inr n" "n < 2"
        by (auto split: sum.splits)
      with Parsed d \<open>map_of kvs ''_checkpoint'' = Some c\<close> c Some show ?thesis
        by (simp add: needs_rerun_def checkpoint_progress_def progress_incomplete_def)
    qed
  qed
qed (simp_all add: needs_rerun_def)

theorem needs_rerun_incomplete_witness:
  "incomplete_result (Parsed (JObj [(''_checkpoint'', JObj [(''progress'', JArr [JInt 3])])])) \<and>
   needs_rerun (Parsed (JObj [(''_checkpoint'', JObj [(''progress'', JArr [JInt 3])])])) = Inr True"
  using needs_rerun_incomplete [of "Parsed (JObj [(''_checkpoint'', JObj [(''progress'', JArr [JInt 3])])])"]
  by simp

lemma py_lt_numbers:
  "number a = Some x \<Longrightarrow> number b = Some y \<Longrightarrow> py_lt a b = Inr (float_lt x y)"
  by (cases a; cases b) auto

lemma well_formed_progress_total:
  "well_formed_progress p \<Longrightarrow> \<exists>b. progress_incomplete p = Inr b"
  by (cases p) (auto simp: progress_incomplete_def py_lt_numbers)

lemma scan_records_failed:
  "list_all well_formed_record rs \<Longrightarrow> list_ex failed_record rs \<Longrightarrow> scan_records rs = Inr True"
proof (induction rs)
  case Nil
  then show ?case by simp
next
  case (Cons r rs)
  from Cons.prems(1) obtain kvs where r: "r = JObj kvs"
    by (cases r) auto
  show ?case
  proof (cases "map_of kvs ''status''")
    case None
    with r Cons show ?thesis by simp
  next
    case (Some st)
    with r Cons.prems(1) have h: "hashable st" by simp
    show ?thesis
    proof (cases "failed_record r")
      case True
      with r Some show ?thesis by (cases st) auto
    next
      case False
      with Cons.prems(2) have ex: "list_ex failed_record rs" by simp
      from Cons.prems(1) have wf: "list_all well_formed_record rs" by simp
      from False r Some h have "in_FAIL_STATUSES st = Inr False"
        by (cases st) auto
      with r Some Cons.IH[OF wf ex] show ?thesis by simp
    qed
  qed
qed

text \<open>
  C5, as stated, fails. A parsed result file can hold a record with a failure status and a
  progress that is \<^verbatim>\<open>null\<close>: \<^verbatim>\<open>len(progress)\<close> raises a \<^verbatim>\<open>TypeError\<close> before
  any record is read, so \<^verbatim>\<open>needs_rerun\<close> does not return.
\<close>

theorem failed_record_null_progress_raises:
  "getitem null_progress_failed_result ''_checkpoint'' =
     Inr (JObj [(''progress'', JNull),
                (''records'', JArr [JObj [(''status'', JStr ''Failed'')]])]) \<and>
   list_ex failed_record [JObj [(''status'', JStr ''Failed'')]] \<and>
   needs_rerun (Parsed null_progress_failed_result) = Inl TypeError"
  by (simp add: null_progress_failed_result_def needs_rerun_def checkpoint_progress_def
      progress_incomplete_def FAIL_STATUSES_def)

text \<open>
  C5, amended. For a parsed result file of the evaluator's format (a progress list whose
  first two elements, when it has them, are numbers; records that are objects with a
  hashable status) whose checkpoint holds at least one record with a status in
  \<^verbatim>\<open>FAIL_STATUSES\<close>, \<^verbatim>\<open>needs_rerun\<close> returns \<^verbatim>\<open>True\<close>, whatever the progress
  pair says.
\<close>

theorem failed_record_needs_rerun:
  assumes "getitem evaluation_data ''_checkpoint'' = Inr ckpt"
    and "getitem ckpt ''progress'' = Inr progress"
    and "well_formed_progress progress"
    and "getitem ckpt ''records'' = Inr (JArr records)"
    and "list_all well_formed_record records"
    and "list_ex failed_record records"
  shows "needs_rerun (Parsed evaluation_data) = Inr True"
proof -
  from assms(4) obtain cp where cp: "ckpt = JObj cp" and
    recs: "map_of cp ''records'' = Some (JArr records)"
    by (cases ckpt) (auto split: option.splits)
  from assms(1,2) have cpp: "checkpoint_progress evaluation_data = Inr (ckpt, progress)"
    by (simp add: checkpoint_progress_def)
  from well_formed_progress_total[OF assms(3)] obtain b where b: "progress_incomplete progress = Inr b"
    by blast
  from scan_records_failed[OF assms(5,6)] have "scan_records records = Inr True" .
  with cpp b cp recs show ?thesis
    by (simp add: needs_rerun_def)
qed

theorem failed_record_needs_rerun_witness:
  "getitem failed_result ''_checkpoint'' =
     Inr (JObj [(''progress'', JArr [JInt 1, JInt 1]),
                (''records'', JArr [JObj [(''status'', JStr ''Failed - Agent crashed'')]])]) \<and>
   needs_rerun (Parsed failed_result) = Inr True"
  using failed_record_needs_rerun [of failed_result
      "JObj [(''progress'', JArr [JInt 1, JInt 1]),
             (''records'', JArr [JObj [(''status'', JStr ''Failed - Agent crashed'')]])]"
      "JArr [JInt 1, JInt 1]" "[JObj [(''status'', JStr ''Failed - Agent crashed'')]]"]
  by (simp add: failed_result_def FAIL_STATUSES_def)

text \<open>Without any assumption on the shape of the progress and of the other records, a failed record still rules out the answer \<^verbatim>\<open>False\<close>.\<close>

lemma scan_records_never_passes:
  "list_ex failed_record rs \<Longrightarrow> scan_records rs \<noteq> Inr False"
proof (induction rs)
  case Nil
  then show ?case by simp
next
  case (Cons r rs)
  show ?case
  proof (cases "failed_record r")
    case True
    then obtain kvs s where "r = JObj kvs" "map_of kvs ''status'' = Some (JStr s)" "s \<in> FAIL_STATUSES"
      by (cases r) (auto split: option.splits json.splits)
    then show ?thesis by simp
  next
    case False
    with Cons have "scan_records rs \<noteq> Inr False" by simp
    then show ?thesis
      by (auto split: sum.splits if_splits)
  qed
qed

lemma failed_record_never_complete:
  assumes "getitem evaluation_data ''_checkpoint'' = Inr ckpt"
    and "getitem ckpt ''records'' = Inr (JArr records)"
    and "list_ex failed_record records"
  shows "needs_rerun (Parsed evaluation_data) \<noteq> Inr False"
proof -
  from assms(2) obtain cp where cp: "ckpt = JObj cp" "map_of cp ''records'' = Some (JArr records)"
    by (cases ckpt) (auto split: option.splits)
  from scan_records_never_passes[OF assms(3)] have "scan_records records \<noteq> Inr False" .
  with assms(1) cp show ?thesis
    by (auto simp: needs_rerun_def checkpoint_progress_def split: sum.splits option.splits if_splits)
qed

lemma float_ge_not_lt: "float_ge x y \<Longrightarrow> \<not> float_lt x y"
  by (cases x; cases y) (auto simp: float_ge_def float_eq_def)

lemma scan_records_passing:
  "list_all well_formed_record rs \<Longrightarrow> \<not> list_ex failed_record rs \<Longrightarrow> scan_records rs = Inr False"
proof (induction rs)
  case Nil
  then show ?case by simp
next
  case (Cons r rs)
  from Cons.prems(1) obtain kvs where r: "r = JObj kvs"
    by (cases r) auto
  from Cons have IH: "scan_records rs = Inr False" by simp
  show ?case
  proof (cases "map_of kvs ''status''")
    case None
    with r IH show ?thesis by simp
  next
    case (Some st)
    with r Cons.prems have "in_FAIL_STATUSES st = Inr False"
      by (cases st) auto
    with r Some IH show ?thesis by simp
  qed
qed

lemma launches_complete:
  assumes "needs_rerun (result_at w (result_file j)) = Inr False"
  shows "launches (snd (process_job launch_job result_at j w)) = 0"
proof (cases "0 < remaining_tries j")
  case True
  with assms show ?thesis by (simp add: process_job_skip)
next
  case False
  then show ?thesis by (simp add: process_job_no_tries)
qed

text \<open>
  C10, as stated, fails twice. A records list without any failure status can hold a value
  that is no object, and then \<^verbatim>\<open>record.get\<close> raises an \<^verbatim>\<open>AttributeError\<close>; and a
  job whose retry budget is 0 is not skipped even with the progress \<^verbatim>\<open>[0, 0]\<close>: the
  loop is never entered, \<^verbatim>\<open>process_job\<close> prints \<^verbatim>\<open>[FAIL]\<close> and returns
  \<^verbatim>\<open>False\<close>.
\<close>

theorem progress_reached_not_skipped:
  "\<not> list_ex failed_record [JInt 5] \<and>
   needs_rerun (Parsed odd_record_result) = Inl AttributeError \<and>
   needs_rerun (Parsed vacuous_result) = Inr False \<and>
   process_job (\<lambda>j w. (True, w)) (\<lambda>w p. Parsed vacuous_result)
     (example_job\<lparr>remaining_tries := 0\<rparr>) () =
     (Inr False,
      \<lparr>cur_job = example_job\<lparr>remaining_tries := 0\<rparr>, world = (), stdout = [FAIL],
        launches = 0, tries_trace = [0]\<rparr>)"
  by (simp add: odd_record_result_def vacuous_result_def needs_rerun_def checkpoint_progress_def
      progress_incomplete_def process_job_no_tries)

text \<open>
  C10, amended. For a parsed result file whose progress begins with two numbers, the
  first not below the second (the pair \<^verbatim>\<open>[0, 0]\<close> included), and whose records are
  absent or are objects with a hashable status none of which is a failure status,
  \<^verbatim>\<open>needs_rerun\<close> returns \<^verbatim>\<open>False\<close>; a job with a positive retry budget and that
  result file is skipped: \<^verbatim>\<open>process_job\<close> prints \<^verbatim>\<open>[SKIP]\<close> and returns
  \<^verbatim>\<open>True\<close> without launching the evaluator.
\<close>

theorem progress_reached_is_skipped:
  assumes "getitem evaluation_data ''_checkpoint'' = Inr ckpt"
    and "getitem ckpt ''progress'' = Inr (JArr (completed # total_n # rest))"
    and "number completed = Some x" and "number total_n = Some y" and "float_ge x y"
    and "dict_get ckpt ''records'' (JArr []) = Inr (JArr records)"
    and "list_all well_formed_record records"
    and "\<not> list_ex failed_record records"
    and "result_at w (result_file j) = Parsed evaluation_data"
    and "0 < remaining_tries j"
  shows "needs_rerun (Parsed evaluation_data) = Inr False \<and>
         process_job launch_job result_at j w =
           (Inr True, \<lparr>cur_job = j, world = w, stdout = [SKIP], launches = 0,
                       tries_trace = [remaining_tries j]\<rparr>)"
proof -
  from assms(1,2) have cpp:
    "checkpoint_progress evaluation_data = Inr (ckpt, JArr (completed # total_n # rest))"
    by (simp add: checkpoint_progress_def)
  from assms(3,4,5) have "py_lt completed total_n = Inr False"
    by (simp add: py_lt_numbers float_ge_not_lt)
  then have p: "progress_incomplete (JArr (completed # total_n # rest)) = Inr False"
    by (simp add: progress_incomplete_def)
  from scan_records_passing[OF assms(7,8)] have "scan_records records = Inr False" .
  with cpp p assms(6) have n: "needs_rerun (Parsed evaluation_data) = Inr False"
    by (simp add: needs_rerun_def)
  with assms(9) have "needs_rerun (result_at w (result_file j)) = Inr False" by simp
  from process_job_skip[where j=j and result_at=result_at and w=w and launch_job=launch_job,
      OF assms(10) this] n
  show ?thesis by simp
qed

theorem progress_reached_is_skipped_witness:
  "getitem vacuous_result ''_checkpoint'' = Inr (JObj [(''progress'', JArr [JInt 0, JInt 0])]) \<and>
   float_ge (Fin 0) (Fin 0) \<and>
   0 < remaining_tries example_job \<and>
   needs_rerun (Parsed vacuous_result) = Inr False \<and>
   process_job (\<lambda>j w. (True, w)) (\<lambda>w p. Parsed vacuous_result) example_job () =
     (Inr True, \<lparr>cur_job = example_job, world = (), stdout = [SKIP], launches = 0,
                 tries_trace = [1]\<rparr>)"
  using progress_reached_is_skipped [of vacuous_result "JObj [(''progress'', JArr [JInt 0, JInt 0])]"
      "JInt 0" "JInt 0" "[]" "Fin 0" "Fin 0" "[]" "\<lambda>w p. Parsed vacuous_result" "()" example_job
      "\<lambda>j w. (True, w)"]
  by (simp add: vacuous_result_def float_ge_def float_eq_def example_job_def)

section \<open>Properties of the Config Resolver\<close>

lemma check_paths_None:
  "check_paths X ps = None \<longleftrightarrow> list_all (\<lambda>(n, p). X p) ps"
  by (induction ps) (auto split: if_splits)

lemma check_paths_Some:
  "\<not> list_all (\<lambda>(n, p). X p) ps \<Longrightarrow>
   \<exists>n p. (n, p) \<in> set ps \<and> \<not> X p \<and> check_paths X ps = Some (FileNotFoundError n p)"
  by (induction ps) auto

lemma required_paths_present:
  assumes "route_path c = Some rp" and "carla_root c = Some cr" and "repo_root c = Some rr"
    and "agent_file c = Some af" and "checkpoint c = Some ck"
  shows "required_paths (set_defaults (expand_fields E c)) = Inr (expanded_paths E rp cr rr af ck)"
  using assms
  by (simp add: required_paths_def set_defaults_def expand_fields_def expanded_paths_def)

text \<open>
  C9. For a raw configuration that has the five required path fields (route directory,
  simulator root, repository root, agent entry file, checkpoint file),
  \<^verbatim>\<open>preprocess_config\<close> returns a configuration exactly when all five expanded paths
  exist; it is then the raw one with its paths expanded and the defaults
  \<^verbatim>\<open>carla_port\<close> 2000, \<^verbatim>\<open>carla_tm_port\<close> 2500, \<^verbatim>\<open>timeout\<close> 600, \<^verbatim>\<open>tries\<close> 1 put
  where the key was absent. When some path does not exist it raises a
  \<^verbatim>\<open>FileNotFoundError\<close> that names a required field and its path, one that does not
  exist.
\<close>

theorem preprocess_config_required_paths:
  assumes "route_path c = Some rp" and "carla_root c = Some cr" and "repo_root c = Some rr"
    and "agent_file c = Some af" and "checkpoint c = Some ck"
  shows "((\<exists>c'. preprocess_config E X c = Inr c') \<longleftrightarrow>
            list_all (\<lambda>(n, p). X p) (expanded_paths E rp cr rr af ck)) \<and>
         (list_all (\<lambda>(n, p). X p) (expanded_paths E rp cr rr af ck) \<longrightarrow>
            preprocess_config E X c =
              Inr (c\<lparr>checkpoint := Some (E ck), route_path := Some (E rp),
                     out_root := map_option E (out_root c), carla_root := Some (E cr),
                     repo_root := Some (E rr), agent_file := Some (E af),
                     carla_port := Some (case carla_port c of None \<Rightarrow> 2000 | Some v \<Rightarrow> v),
                     carla_tm_port := Some (case carla_tm_port c of None \<Rightarrow> 2500 | Some v \<Rightarrow> v),
                     timeout := Some (case timeout c of None \<Rightarrow> 600 | Some v \<Rightarrow> v),
                     tries := Some (case tries c of None \<Rightarrow> 1 | Some v \<Rightarrow> v)\<rparr>)) \<and>
         (\<not> list_all (\<lambda>(n, p). X p) (expanded_paths E rp cr rr af ck) \<longrightarrow>
            (\<exists>n p. (n, p) \<in> set (expanded_paths E rp cr rr af ck) \<and> \<not> X p \<and>
               preprocess_config E X c = Inl (FileNotFoundError n p)))"
proof -
  let ?req = "expanded_paths E rp cr rr af ck"
  note req = required_paths_present[OF assms, of E]
  have ok: "preprocess_config E X c = Inr (set_defaults (expand_fields E c))"
    if "list_all (\<lambda>(n, p). X p) ?req"
    using that req check_paths_None[of X ?req]
    by (simp add: preprocess_config_def)
  have bad: "\<exists>n p. (n, p) \<in> set ?req \<and> \<not> X p \<and>
      preprocess_config E X c = Inl (FileNotFoundError n p)"
    if "\<not> list_all (\<lambda>(n, p). X p) ?req"
  proof -
    from check_paths_Some[OF that] obtain n p where
      "(n, p) \<in> set ?req" "\<not> X p" "check_paths X ?req = Some (FileNotFoundError n p)"
      by blast
    with req show ?thesis by (auto simp: preprocess_config_def)
  qed
  have res: "set_defaults (expand_fields E c) =
      c\<lparr>checkpoint := Some (E ck), route_path := Some (E rp),
        out_root := map_option E (out_root c), carla_root := Some (E cr),
        repo_root := Some (E rr), agent_file := Some (E af),
        carla_port := Some (case carla_port c of None \<Rightarrow> 2000 | Some v \<Rightarrow> v),
        carla_tm_port := Some (case carla_tm_port c of None \<Rightarrow> 2500 | Some v \<Rightarrow> v),
        timeout := Some (case timeout c of None \<Rightarrow> 600 | Some v \<Rightarrow> v),
        tries := Some (case tries c of None \<Rightarrow> 1 | Some v \<Rightarrow> v)\<rparr>"
    using assms
    by (simp add: set_defaults_def expand_fields_def setdefault_def split: option.splits)
  show ?thesis
    using ok bad res by (metis sum.distinct(1))
qed

theorem preprocess_config_required_paths_witness:
  "route_path example_raw_cfg = Some ''/data/bench2drive_split'' \<and>
   carla_root example_raw_cfg = Some ''/software/carla0915'' \<and>
   repo_root example_raw_cfg = Some ''/models/simlingo'' \<and>
   agent_file example_raw_cfg = Some ''/models/simlingo/team_code/agent_simlingo.py'' \<and>
   checkpoint example_raw_cfg = Some ''/ckpts/pytorch_model.pt'' \<and>
   preprocess_config (\<lambda>p. p) (\<lambda>p. True) example_raw_cfg = Inr (cfg example_job)"
  using preprocess_config_required_paths [of example_raw_cfg "''/data/bench2drive_split''"
      "''/software/carla0915''" "''/models/simlingo''"
      "''/models/simlingo/team_code/agent_simlingo.py''" "''/ckpts/pytorch_model.pt''"
      "\<lambda>p. p" "\<lambda>p. True"]
  by (simp add: example_raw_cfg_def example_job_def expanded_paths_def)

lemma preprocess_config_missing_example:
  "preprocess_config (\<lambda>p. p) (\<lambda>p. p \<noteq> ''/ckpts/pytorch_model.pt'') example_raw_cfg =
     Inl (FileNotFoundError ''checkpoint'' ''/ckpts/pytorch_model.pt'')"
  by (simp add: preprocess_config_def example_raw_cfg_def example_job_def required_paths_def
      set_defaults_def expand_fields_def)

section \<open>Properties of Route Discovery\<close>

text \<open>The extension test and the stem, in terms of the name alone.\<close>

lemma rfind_None: "rfind c xs = None \<longleftrightarrow> c \<notin> set xs"
  by (induction xs) (auto split: option.splits)

lemma rfind_append:
  "c \<notin> set ys \<Longrightarrow> rfind c (xs @ c # ys) = Some (length xs)"
  by (induction xs) (auto simp: rfind_None split: option.splits)

lemma rfind_Some:
  "rfind c xs = Some i \<Longrightarrow> i < length xs \<and> xs ! i = c"
  by (induction xs arbitrary: i) (auto split: option.splits if_splits)

lemma suffix_xml_iff:
  "suffix name = ''.xml'' \<longleftrightarrow> (\<exists>st. st \<noteq> [] \<and> name = st @ ''.xml'')"
proof
  assume a: "suffix name = ''.xml''"
  then obtain i where i: "rfind CHR ''.'' name = Some i" "0 < i" "drop i name = ''.xml''"
    by (auto simp: suffix_def split: option.splits if_splits)
  have "name = take i name @ ''.xml''" using i(3) by (metis append_take_drop_id)
  moreover have "take i name \<noteq> []" using i rfind_Some[OF i(1)] by auto
  ultimately show "\<exists>st. st \<noteq> [] \<and> name = st @ ''.xml''" by blast
next
  assume "\<exists>st. st \<noteq> [] \<and> name = st @ ''.xml''"
  then obtain st where st: "st \<noteq> []" "name = st @ ''.xml''" by blast
  have "rfind CHR ''.'' (st @ CHR ''.'' # ''xml'') = Some (length st)"
    by (rule rfind_append) simp
  with st show "suffix name = ''.xml''" by (simp add: suffix_def)
qed

lemma stem_xml:
  "st \<noteq> [] \<Longrightarrow> stem (st @ ''.xml'') = st"
proof -
  assume st: "st \<noteq> []"
  have "rfind CHR ''.'' (st @ CHR ''.'' # ''xml'') = Some (length st)"
    by (rule rfind_append) simp
  with st show ?thesis by (simp add: stem_def)
qed

lemma discover_routes_same_entries:
  assumes "distinct es" and "distinct es'" and "set es = set es'"
  shows "discover_routes es = discover_routes es'"
  unfolding discover_routes_def
  by (rule sorted_distinct_set_unique) (use assms in auto)

text \<open>
  C8. \<^verbatim>\<open>discover_routes\<close> returns exactly the entries whose name is a non-empty stem
  followed by \<^verbatim>\<open>.xml\<close>, sorted in the lexicographic order of their names; two listings
  of the same entries give the same list, and a directory that holds \<^verbatim>\<open>route_10.xml\<close>,
  \<^verbatim>\<open>route_2.xml\<close> and \<^verbatim>\<open>route_1.xml\<close> gives \<^verbatim>\<open>route_1.xml\<close>,
  \<^verbatim>\<open>route_10.xml\<close>, \<^verbatim>\<open>route_2.xml\<close> whatever the order of the listing.
\<close>

theorem discover_routes_lexicographic:
  "sorted (discover_routes es) \<and>
   set (discover_routes es) = {p \<in> set es. \<exists>st. st \<noteq> [] \<and> p = st @ ''.xml''} \<and>
   (distinct es \<and> distinct es' \<and> set es = set es' \<longrightarrow>
      discover_routes es = discover_routes es') \<and>
   (distinct es \<and> set es = {''route_10.xml'', ''route_2.xml'', ''route_1.xml''} \<longrightarrow>
      discover_routes es = [''route_1.xml'', ''route_10.xml'', ''route_2.xml''])"
proof -
  have a: "sorted (discover_routes es)"
    by (simp add: discover_routes_def)
  have b: "set (discover_routes es) = {p \<in> set es. \<exists>st. st \<noteq> [] \<and> p = st @ ''.xml''}"
    by (simp add: discover_routes_def suffix_xml_iff)
  have d: "discover_routes es = [''route_1.xml'', ''route_10.xml'', ''route_2.xml'']"
    if "distinct es" "set es = {''route_10.xml'', ''route_2.xml'', ''route_1.xml''}"
  proof -
    have "discover_routes es = discover_routes [''route_10.xml'', ''route_2.xml'', ''route_1.xml'']"
      using that by (intro discover_routes_same_entries) auto
    also have "\<dots> = [''route_1.xml'', ''route_10.xml'', ''route_2.xml'']"
      by (simp add: discover_routes_def suffix_def)
    finally show ?thesis .
  qed
  from a b d discover_routes_same_entries show ?thesis by blast
qed

theorem discover_routes_lexicographic_witness:
  "distinct [''route_10.xml'', ''notes.txt'', ''route_2.xml'', ''.xml'', ''route_1.xml''] \<and>
   distinct [''.xml'', ''route_1.xml'', ''route_2.xml'', ''route_10.xml'', ''notes.txt''] \<and>
   discover_routes [''route_10.xml'', ''notes.txt'', ''route_2.xml'', ''.xml'', ''route_1.xml''] =
     [''route_1.xml'', ''route_10.xml'', ''route_2.xml''] \<and>
   discover_routes [''.xml'', ''route_1.xml'', ''route_2.xml'', ''route_10.xml'', ''notes.txt''] =
     [''route_1.xml'', ''route_10.xml'', ''route_2.xml'']"
proof -
  let ?es = "[''route_10.xml'', ''notes.txt'', ''route_2.xml'', ''.xml'', ''route_1.xml'']"
  let ?es' = "[''.xml'', ''route_1.xml'', ''route_2.xml'', ''route_10.xml'', ''notes.txt'']"
  have h1: "distinct ?es" "distinct ?es'" by simp_all
  have h3: "set ?es = set ?es'" by auto
  have v: "discover_routes ?es = [''route_1.xml'', ''route_10.xml'', ''route_2.xml'']"
    by (simp add: discover_routes_def suffix_def)
  from discover_routes_lexicographic [of ?es ?es'] h1 h3
  have "discover_routes ?es = discover_routes ?es'" by blast
  with h1 v show ?thesis by simp
qed

section \<open>Properties of the Job Queue Builder\<close>

text \<open>The last token of a split holds no separator and ends the string, after a separator unless it is the whole string.\<close>

lemma split_not_Nil: "split sep s \<noteq> []"
  by (cases s) auto

lemma last_split_aux:
  "sep \<notin> set (last (split sep s)) \<and>
   (if tl (split sep s) = [] then s = last (split sep s)
    else (\<exists>pre. s = pre @ sep # last (split sep s)))"
proof (induction s)
  case Nil
  then show ?case by simp
next
  case (Cons x s)
  let ?ts = "split sep s"
  obtain t ts' where ts: "?ts = t # ts'"
    using split_not_Nil[of sep s] by (cases ?ts) auto
  from Cons have notin: "sep \<notin> set (last ?ts)" by simp
  have pre: "\<exists>pre. x # s = pre @ sep # last ?ts" if "ts' \<noteq> []"
  proof -
    from Cons ts that obtain pre where "s = pre @ sep # last ?ts" by auto
    then have "x # s = (x # pre) @ sep # last ?ts" by simp
    then show ?thesis by blast
  qed
  show ?case
  proof (cases "x = sep")
    case True
    then have sp: "split sep (x # s) = [] # ?ts" by simp
    have l: "last (split sep (x # s)) = last ?ts" "tl (split sep (x # s)) \<noteq> []"
      using ts unfolding sp by simp_all
    have "\<exists>pre. x # s = pre @ sep # last ?ts"
    proof (cases "ts' = []")
      case e: True
      with Cons ts have "s = last ?ts" by simp
      with True have "x # s = [] @ sep # last ?ts" by simp
      then show ?thesis by blast
    next
      case False
      then show ?thesis by (rule pre)
    qed
    with l notin show ?thesis by (simp del: split.simps)
  next
    case False
    then have sp: "split sep (x # s) = (x # t) # ts'" using ts by simp
    show ?thesis
    proof (cases "ts' = []")
      case True
      with Cons ts have "s = t" "sep \<notin> set t" by simp_all
      with True False show ?thesis unfolding sp by simp
    next
      case n: False
      then have l: "last (split sep (x # s)) = last ?ts" "tl (split sep (x # s)) \<noteq> []"
        using ts unfolding sp by simp_all
      from pre[OF n] l notin show ?thesis by (simp del: split.simps)
    qed
  qed
qed

lemma last_split:
  "sep \<notin> set (last (split sep s)) \<and>
   (s = last (split sep s) \<or> (\<exists>pre. s = pre @ sep # last (split sep s)))"
  using last_split_aux[of sep s] by (auto split: if_splits)

lemma zfill_unsigned:
  "\<not> signed s \<Longrightarrow> zfill s w = replicate (w - length s) CHR ''0'' @ s"
  by (auto simp: zfill_def signed_def split: list.splits)

lemma make_job_derived:
  assumes "benchmark c = Some bench" and "route_path c = Some route_dir"
    and "suffix name = ''.xml''"
    and "fill_zeros = (if lower bench = ''bench2drive'' then 3 else 2)"
  shows "route_id_derived os (make_job os c fill_zeros seed_int base_dir route_dir name t)"
  unfolding route_id_derived_def
  apply (rule exI[of _ bench], rule exI[of _ route_dir], rule exI[of _ name])
  using assms by (simp add: make_job_def Let_def zfill_unsigned)

lemma route_loop_derived:
  assumes "route_loop os c fill_zeros seed_int base_dir route_dir names (fs, q) = Inr (fs', q')"
    and "\<forall>j \<in> set q. route_id_derived os j"
    and "benchmark c = Some bench" and "route_path c = Some route_dir"
    and "\<forall>n \<in> set names. suffix n = ''.xml''"
    and "fill_zeros = (if lower bench = ''bench2drive'' then 3 else 2)"
  shows "\<forall>j \<in> set q'. route_id_derived os j"
  using assms
proof (induction names arbitrary: fs q)
  case Nil
  then show ?case by simp
next
  case (Cons name names)
  from Cons.prems(1) obtain t where t: "tries c = Some t"
    and rest: "route_loop os c fill_zeros seed_int base_dir route_dir names
       (mkdir os (joinpath os base_dir ''viz'') fs,
        q @ [make_job os c fill_zeros seed_int base_dir route_dir name t]) = Inr (fs', q')"
    by (auto simp: Let_def split: option.splits)
  have "route_id_derived os (make_job os c fill_zeros seed_int base_dir route_dir name t)"
    using Cons.prems by (intro make_job_derived[where bench=bench]) auto
  with Cons.prems have "\<forall>j \<in> set (q @ [make_job os c fill_zeros seed_int base_dir route_dir name t]).
      route_id_derived os j" by auto
  from Cons.IH[OF rest this] Cons.prems show ?case by simp
qed

lemma seed_loop_derived:
  assumes "seed_loop os c bench fill_zeros route_dir routes sds (fs, q) = Inr (fs', q')"
    and "\<forall>j \<in> set q. route_id_derived os j"
    and "benchmark c = Some bench" and "route_path c = Some route_dir"
    and "\<forall>n \<in> set routes. suffix n = ''.xml''"
    and "fill_zeros = (if lower bench = ''bench2drive'' then 3 else 2)"
  shows "\<forall>j \<in> set q'. route_id_derived os j"
  using assms
proof (induction sds arbitrary: fs q)
  case Nil
  then show ?case by simp
next
  case (Cons sd sds)
  from Cons.prems(1) obtain base fs1 fs2 q2 where
    r: "route_loop os c fill_zeros sd base route_dir routes (fs1, q) = Inr (fs2, q2)"
    and s: "seed_loop os c bench fill_zeros route_dir routes sds (fs2, q2) = Inr (fs', q')"
    by (auto simp: Let_def split: option.splits sum.splits)
  from route_loop_derived[OF r Cons.prems(2,3,4,5,6)]
  have "\<forall>j \<in> set q2. route_id_derived os j" .
  from Cons.IH[OF s this] Cons.prems show ?case by simp
qed

lemma preprocess_config_keeps:
  assumes "preprocess_config E X raw = Inr c"
  shows "benchmark c = benchmark raw"
  using assms
  by (auto simp: preprocess_config_def Let_def set_defaults_def expand_fields_def
      split: sum.splits option.splits)

lemma config_loop_derived:
  assumes "config_loop os configs (fs, q) = Inr (fs', q')"
    and "\<forall>j \<in> set q. route_id_derived os j"
  shows "\<forall>j \<in> set q'. route_id_derived os j"
  using assms
proof (induction configs arbitrary: fs q)
  case Nil
  then show ?case by simp
next
  case (Cons raw configs)
  from Cons.prems(1) obtain c route_dir bench fs2 q2 where
    c: "route_path c = Some route_dir" "benchmark c = Some bench"
    and s: "seed_loop os c bench (if lower bench = ''bench2drive'' then 3 else 2) route_dir
         (discover_routes (iterdir os fs route_dir))
         (case seeds c of None \<Rightarrow> [1] | Some l \<Rightarrow> l) (fs, q) = Inr (fs2, q2)"
    and r: "config_loop os configs (fs2, q2) = Inr (fs', q')"
    by (auto simp: Let_def split: option.splits sum.splits)
  have x: "\<forall>n \<in> set (discover_routes (iterdir os fs route_dir)). suffix n = ''.xml''"
    by (simp add: discover_routes_def)
  from seed_loop_derived[OF s Cons.prems(2) c(2,1) x]
  have "\<forall>j \<in> set q2. route_id_derived os j" by simp
  from Cons.IH[OF r this] show ?case .
qed

text \<open>Every job of the queue has the route id the builder computes from its route file.\<close>

lemma queue_route_ids_computed:
  assumes "build_job_queue os fs configs = Inr job_queue"
    and "j \<in> set job_queue"
  shows "route_id_derived os j"
proof -
  from assms(1) obtain fs' where "config_loop os configs (fs, []) = Inr (fs', job_queue)"
    by (auto simp: build_job_queue_def split: sum.splits)
  from config_loop_derived[OF this] assms(2) show ?thesis by simp
qed

lemma build_example: "build_job_queue example_os () [cfg example_job] = Inr [example_job]"
  by code_simp

lemma route_7_examples:
  "zfill (last (split CHR ''_'' (stem ''route_7.xml'')))
     (if lower ''Bench2Drive'' = ''bench2drive'' then 3 else 2) = ''007'' \<and>
   zfill (last (split CHR ''_'' (stem ''route_7.xml'')))
     (if lower ''longest6'' = ''bench2drive'' then 3 else 2) = ''07''"
  by code_simp

text \<open>The queue of one configuration, in full: one job for every seed and every discovered route, seed by seed.\<close>

lemma route_loop_appends:
  assumes "tries c = Some t"
  shows "\<exists>fs'. route_loop os c fill_zeros seed_int base_dir route_dir names (fs, q) =
     Inr (fs', q @ map (\<lambda>name. make_job os c fill_zeros seed_int base_dir route_dir name t) names)"
  using assms
proof (induction names arbitrary: fs q)
  case Nil
  then show ?case by simp
next
  case (Cons name names)
  from Cons.IH[OF Cons.prems, of "mkdir os (joinpath os base_dir ''viz'') fs"
      "q @ [make_job os c fill_zeros seed_int base_dir route_dir name t]"]
  show ?case using Cons.prems by (simp add: Let_def)
qed

lemma seed_loop_appends:
  assumes "tries c = Some t" and "out_root c = Some out" and "agent c = Some ag"
  shows "\<exists>fs'. seed_loop os c bench fill_zeros route_dir routes sds (fs, q) =
     Inr (fs', q @ concat (map (\<lambda>sd. map (\<lambda>name.
        make_job os c fill_zeros sd (seed_dir os out ag bench sd) route_dir name t) routes) sds))"
  using assms
proof (induction sds arbitrary: fs q)
  case Nil
  then show ?case by simp
next
  case (Cons sd sds)
  let ?base = "seed_dir os out ag bench sd"
  let ?fs1 = "fold (\<lambda>sub. mkdir os (joinpath os ?base sub)) [''run'', ''res'', ''out'', ''err''] fs"
  from route_loop_appends[OF Cons.prems(1), of os fill_zeros sd ?base route_dir routes ?fs1 q]
  obtain fs2 where r: "route_loop os c fill_zeros sd ?base route_dir routes (?fs1, q) =
     Inr (fs2, q @ map (\<lambda>name. make_job os c fill_zeros sd ?base route_dir name t) routes)"
    by blast
  from Cons.IH[OF Cons.prems, of fs2
      "q @ map (\<lambda>name. make_job os c fill_zeros sd ?base route_dir name t) routes"]
  obtain fs' where "seed_loop os c bench fill_zeros route_dir routes sds
      (fs2, q @ map (\<lambda>name. make_job os c fill_zeros sd ?base route_dir name t) routes) =
     Inr (fs', (q @ map (\<lambda>name. make_job os c fill_zeros sd ?base route_dir name t) routes) @
        concat (map (\<lambda>sd. map (\<lambda>name.
          make_job os c fill_zeros sd (seed_dir os out ag bench sd) route_dir name t) routes) sds))"
    by blast
  with r Cons.prems show ?case
    by (simp add: Let_def seed_dir_def)
qed

lemma build_job_queue_one_config:
  assumes "preprocess_config (expand_path os) (path_exists os fs) raw_cfg = Inr c"
    and "route_path c = Some route_dir" and "benchmark c = Some bench"
    and "out_root c = Some out" and "agent c = Some ag" and "tries c = Some t"
  shows "build_job_queue os fs [raw_cfg] =
     Inr (concat (map (\<lambda>sd. map (\<lambda>name.
        make_job os c (if lower bench = ''bench2drive'' then 3 else 2) sd
          (seed_dir os out ag bench sd) route_dir name t)
        (discover_routes (iterdir os fs route_dir)))
        (case seeds c of None \<Rightarrow> [1] | Some l \<Rightarrow> l)))"
proof -
  from seed_loop_appends[OF assms(6,4,5), of os bench "if lower bench = ''bench2drive'' then 3 else 2"
      route_dir "discover_routes (iterdir os fs route_dir)"
      "case seeds c of None \<Rightarrow> [1] | Some l \<Rightarrow> l" fs "[]"]
  obtain fs' where "seed_loop os c bench (if lower bench = ''bench2drive'' then 3 else 2)
      route_dir (discover_routes (iterdir os fs route_dir))
      (case seeds c of None \<Rightarrow> [1] | Some l \<Rightarrow> l) (fs, []) =
     Inr (fs', concat (map (\<lambda>sd. map (\<lambda>name.
        make_job os c (if lower bench = ''bench2drive'' then 3 else 2) sd
          (seed_dir os out ag bench sd) route_dir name t)
        (discover_routes (iterdir os fs route_dir)))
        (case seeds c of None \<Rightarrow> [1] | Some l \<Rightarrow> l)))"
    by auto
  with assms(1,2,3) show ?thesis
    by (simp add: build_job_queue_def Let_def)
qed

text \<open>\<^verbatim>\<open>str.lower\<close> gives \<^verbatim>\<open>bench2drive\<close> exactly on the spellings of it in any case.\<close>

lemma of_char_lower_char:
  "(of_char (lower_char c) :: nat) =
     (if (65 \<le> (of_char c :: nat) \<and> (of_char c :: nat) \<le> 90) \<or>
         (192 \<le> (of_char c :: nat) \<and> (of_char c :: nat) \<le> 222 \<and> (of_char c :: nat) \<noteq> 215)
      then of_char c + 32 else of_char c)"
  by (auto simp: lower_char_def Let_def)

lemma char_eq_code: "c = d \<longleftrightarrow> (of_char c :: nat) = of_char d"
  by simp

lemma lower_code:
  fixes n L U :: nat
  assumes "L = U + 32" and "65 \<le> U" and "U \<le> 90"
  shows "((if (65 \<le> n \<and> n \<le> 90) \<or> (192 \<le> n \<and> n \<le> 222 \<and> n \<noteq> 215) then n + 32 else n) = L)
           \<longleftrightarrow> (n = L \<or> n = U)"
  using assms by (auto split: if_splits)

lemma lower_char_letter:
  assumes "(of_char lo :: nat) = of_char up + 32" and "65 \<le> (of_char up :: nat)"
    and "(of_char up :: nat) \<le> 90"
  shows "lower_char c = lo \<longleftrightarrow> c = lo \<or> c = up"
proof -
  have "lower_char c = lo \<longleftrightarrow> (of_char (lower_char c) :: nat) = of_char lo"
    by simp
  also have "\<dots> \<longleftrightarrow> (of_char c :: nat) = of_char lo \<or> (of_char c :: nat) = of_char up"
    unfolding of_char_lower_char by (rule lower_code[OF assms])
  also have "\<dots> \<longleftrightarrow> c = lo \<or> c = up"
    by simp
  finally show ?thesis .
qed

lemma lower_char_2: "lower_char c = CHR ''2'' \<longleftrightarrow> c = CHR ''2''"
  unfolding char_eq_code[of "lower_char c"] char_eq_code[of c] of_char_lower_char
  by (simp split: if_splits)

lemma lower_char_cases:
  assumes "(lo, up) \<in> set bench2drive_cases"
  shows "lower_char c = lo \<longleftrightarrow> c = lo \<or> c = up"
proof -
  from assms consider "lo = CHR ''2'' \<and> up = CHR ''2''"
    | "(of_char lo :: nat) = of_char up + 32 \<and> 65 \<le> (of_char up :: nat) \<and> (of_char up :: nat) \<le> 90"
    unfolding bench2drive_cases_def by auto
  then show ?thesis
  proof cases
    case 1
    then show ?thesis by (simp add: lower_char_2)
  next
    case 2
    then show ?thesis by (intro lower_char_letter) simp_all
  qed
qed

lemma map_eq_iff_list_all2: "map f s = t \<longleftrightarrow> list_all2 (\<lambda>c d. f c = d) s t"
  by (induction s arbitrary: t) (auto simp: list_all2_Cons1)

lemma bench2drive_fst: "map fst bench2drive_cases = ''bench2drive''"
  by (simp add: bench2drive_cases_def)

lemma lower_bench2drive: "lower s = ''bench2drive'' \<longleftrightarrow> bench2drive_any_case s"
proof -
  have "lower s = ''bench2drive'' \<longleftrightarrow>
      list_all2 (\<lambda>c p. lower_char c = fst p) s bench2drive_cases"
    unfolding lower_def bench2drive_fst[symmetric] map_eq_iff_list_all2
    by (simp add: list_all2_map2)
  also have "\<dots> \<longleftrightarrow> list_all2 (\<lambda>c (lo, up). c = lo \<or> c = up) s bench2drive_cases"
    by (rule list.rel_cong) (auto simp: lower_char_cases)
  finally show ?thesis by (simp add: bench2drive_any_case_def)
qed

lemma any_case_examples:
  "bench2drive_any_case ''bench2drive'' \<and> bench2drive_any_case ''Bench2Drive'' \<and>
   bench2drive_any_case ''BENCH2DRIVE'' \<and> \<not> bench2drive_any_case ''longest6''"
  by (simp add: bench2drive_any_case_def bench2drive_cases_def)

text \<open>The route id the builder computes is the route identifier of the spec.\<close>

lemma zfill_zero_padded: "zfill s w = zero_padded w s"
  by (cases s) (auto simp: zfill_def zero_padded_def signed_def)

lemma route_id_of_model:
  assumes "suffix name = ''.xml''"
  shows "route_id_of bench name
     (zfill (last (split CHR ''_'' (stem name))) (if lower bench = ''bench2drive'' then 3 else 2))"
proof -
  from assms obtain st where st: "st \<noteq> []" "name = st @ ''.xml''"
    unfolding suffix_xml_iff by blast
  then have stem: "stem name = st" by (simp add: stem_xml)
  have tok: "last_token (last (split CHR ''_'' st)) st"
    unfolding last_token_def by (rule last_split)
  show ?thesis
    unfolding route_id_of_def stem zfill_zero_padded lower_bench2drive
    using st tok by blast
qed

text \<open>What the loops add to the queue, job by job.\<close>

lemma route_loop_result:
  assumes "route_loop os c fill_zeros seed_int base_dir route_dir names (fs, q) = Inr (fs', q')"
  shows "\<exists>new. q' = q @ new \<and>
     list_all2 (\<lambda>j name. cfg j = c \<and> seed j = seed_int \<and> route j = joinpath os route_dir name \<and>
        route_id j = zfill (last (split CHR ''_'' (stem name))) fill_zeros) new names"
  using assms
proof (induction names arbitrary: fs q)
  case Nil
  then show ?case by simp
next
  case (Cons name names)
  from Cons.prems obtain t where t: "tries c = Some t"
    and rest: "route_loop os c fill_zeros seed_int base_dir route_dir names
       (mkdir os (joinpath os base_dir ''viz'') fs,
        q @ [make_job os c fill_zeros seed_int base_dir route_dir name t]) = Inr (fs', q')"
    by (auto simp: Let_def split: option.splits)
  from Cons.IH[OF rest] obtain new where new:
    "q' = (q @ [make_job os c fill_zeros seed_int base_dir route_dir name t]) @ new"
    "list_all2 (\<lambda>j name. cfg j = c \<and> seed j = seed_int \<and> route j = joinpath os route_dir name \<and>
        route_id j = zfill (last (split CHR ''_'' (stem name))) fill_zeros) new names"
    by blast
  have "q' = q @ (make_job os c fill_zeros seed_int base_dir route_dir name t # new)"
    using new(1) by simp
  moreover have "list_all2 (\<lambda>j name. cfg j = c \<and> seed j = seed_int \<and>
        route j = joinpath os route_dir name \<and>
        route_id j = zfill (last (split CHR ''_'' (stem name))) fill_zeros)
      (make_job os c fill_zeros seed_int base_dir route_dir name t # new) (name # names)"
    using new(2) by (simp add: make_job_def Let_def)
  ultimately show ?case by blast
qed

lemma seed_loop_result:
  assumes "seed_loop os c bench fill_zeros route_dir routes sds (fs, q) = Inr (fs', q')"
  shows "\<exists>new. q' = q @ new \<and>
     list_all2 (\<lambda>j (sd, name). cfg j = c \<and> seed j = sd \<and> route j = joinpath os route_dir name \<and>
        route_id j = zfill (last (split CHR ''_'' (stem name))) fill_zeros)
       new (List.product sds routes)"
  using assms
proof (induction sds arbitrary: fs q)
  case Nil
  then show ?case by simp
next
  case (Cons sd sds)
  from Cons.prems obtain base fs1 fs2 q2 where
    r: "route_loop os c fill_zeros sd base route_dir routes (fs1, q) = Inr (fs2, q2)"
    and s: "seed_loop os c bench fill_zeros route_dir routes sds (fs2, q2) = Inr (fs', q')"
    by (auto simp: Let_def split: option.splits sum.splits)
  from route_loop_result[OF r] obtain new1 where new1: "q2 = q @ new1"
    "list_all2 (\<lambda>j name. cfg j = c \<and> seed j = sd \<and> route j = joinpath os route_dir name \<and>
        route_id j = zfill (last (split CHR ''_'' (stem name))) fill_zeros) new1 routes"
    by blast
  from Cons.IH[OF s] obtain new2 where new2: "q' = q2 @ new2"
    "list_all2 (\<lambda>j (sd, name). cfg j = c \<and> seed j = sd \<and> route j = joinpath os route_dir name \<and>
        route_id j = zfill (last (split CHR ''_'' (stem name))) fill_zeros)
       new2 (List.product sds routes)"
    by blast
  have a: "list_all2 (\<lambda>j (sd, name). cfg j = c \<and> seed j = sd \<and>
        route j = joinpath os route_dir name \<and>
        route_id j = zfill (last (split CHR ''_'' (stem name))) fill_zeros)
       new1 (map (Pair sd) routes)"
    using new1(2) by (simp add: list_all2_map2)
  have "q' = q @ (new1 @ new2)" using new1(1) new2(1) by simp
  moreover have "list_all2 (\<lambda>j (sd, name). cfg j = c \<and> seed j = sd \<and>
        route j = joinpath os route_dir name \<and>
        route_id j = zfill (last (split CHR ''_'' (stem name))) fill_zeros)
       (new1 @ new2) (List.product (sd # sds) routes)"
    using a new2(2) by (simp add: list_all2_appendI)
  ultimately show ?case by blast
qed

lemma config_loop_extends:
  "config_loop os configs (fs, q) = Inr (fs', q') \<Longrightarrow> \<exists>new. q' = q @ new"
proof (induction configs arbitrary: fs q)
  case Nil
  then show ?case by simp
next
  case (Cons raw configs)
  from Cons.prems obtain c route_dir bench fz sds fs2 q2 where
    s: "seed_loop os c bench fz route_dir
         (discover_routes (iterdir os fs route_dir)) sds (fs, q) = Inr (fs2, q2)"
    and r: "config_loop os configs (fs2, q2) = Inr (fs', q')"
    by (auto simp add: Let_def simp del: seed_loop.simps split: option.splits sum.splits)
  from seed_loop_result[OF s] obtain new1 where "q2 = q @ new1" by blast
  moreover from Cons.IH[OF r] obtain new2 where "q' = q2 @ new2" by blast
  ultimately have "q' = q @ (new1 @ new2)" by simp
  then show ?case by blast
qed

lemma config_loop_append:
  "config_loop os (xs @ ys) st =
     (case config_loop os xs st of Inl e \<Rightarrow> Inl e | Inr st' \<Rightarrow> config_loop os ys st')"
proof (induction xs arbitrary: st)
  case Nil
  then show ?case by simp
next
  case (Cons x xs)
  obtain fs q where st: "st = (fs, q)" by (cases st)
  show ?case
    unfolding st using Cons.IH
    by (auto simp: Let_def split: sum.splits option.splits)
qed

lemma build_example_mixed:
  "build_job_queue example_os () [cfg example_mixed_job] = Inr [example_mixed_job]"
  by code_simp

lemma build_example_other:
  "build_job_queue example_os () [cfg example_other_job] = Inr [example_other_job]"
  by code_simp

lemma derived_route_id_of:
  assumes "route_id_derived os j"
  shows "\<exists>bench route_dir name. benchmark (cfg j) = Some bench \<and>
     route_path (cfg j) = Some route_dir \<and> route j = joinpath os route_dir name \<and>
     route_id_of bench name (route_id j)"
proof -
  from assms obtain bench route_dir name where
    d: "benchmark (cfg j) = Some bench" "route_path (cfg j) = Some route_dir"
      "suffix name = ''.xml''" "route j = joinpath os route_dir name"
      "route_id j = zfill (last (split CHR ''_'' (stem name)))
         (if lower bench = ''bench2drive'' then 3 else 2)"
    unfolding route_id_derived_def by (auto simp: Let_def)
  from route_id_of_model[OF d(3), of bench] d(5)
  have "route_id_of bench name (route_id j)" by simp
  with d show ?thesis by blast
qed

text \<open>
  C7. When \<^verbatim>\<open>build_job_queue\<close> returns a queue for a list of configurations, every
  configuration of the list has, in the queue, one job for each of its seeds and each
  route file discovered in its route directory (in that order, contiguous), and the
  route id of that job is the last \<^verbatim>\<open>_\<close>-delimited token of the stem of the file name,
  padded with zeros to width 3 when the benchmark of the configuration is
  \<^verbatim>\<open>bench2drive\<close> in any case and to width 2 otherwise; every job of the queue has
  such a route id.
\<close>

theorem route_id_zero_padded:
  assumes "build_job_queue os fs (earlier @ raw_cfg # later) = Inr job_queue"
  shows "(\<forall>j \<in> set job_queue.
            \<exists>bench route_dir name. benchmark (cfg j) = Some bench \<and>
              route_path (cfg j) = Some route_dir \<and> route j = joinpath os route_dir name \<and>
              route_id_of bench name (route_id j)) \<and>
         (\<exists>fs' c bench route_dir q1 seg q2.
            preprocess_config (expand_path os) (path_exists os fs') raw_cfg = Inr c \<and>
            benchmark c = Some bench \<and> route_path c = Some route_dir \<and>
            job_queue = q1 @ seg @ q2 \<and>
            list_all2 (job_of_route os c bench route_dir) seg
              (List.product (case seeds c of None \<Rightarrow> [1] | Some l \<Rightarrow> l)
                 (discover_routes (iterdir os fs' route_dir))))"
proof -
  from assms obtain fs_end where
    all: "config_loop os (earlier @ raw_cfg # later) (fs, []) = Inr (fs_end, job_queue)"
    by (auto simp: build_job_queue_def split: sum.splits)
  have sound: "\<forall>j \<in> set job_queue.
      \<exists>bench route_dir name. benchmark (cfg j) = Some bench \<and>
        route_path (cfg j) = Some route_dir \<and> route j = joinpath os route_dir name \<and>
        route_id_of bench name (route_id j)"
  proof
    fix j
    assume "j \<in> set job_queue"
    with config_loop_derived[OF all] have "route_id_derived os j" by simp
    then show "\<exists>bench route_dir name. benchmark (cfg j) = Some bench \<and>
        route_path (cfg j) = Some route_dir \<and> route j = joinpath os route_dir name \<and>
        route_id_of bench name (route_id j)"
      by (rule derived_route_id_of)
  qed
  from all obtain fs' q1 where
    pre: "config_loop os earlier (fs, []) = Inr (fs', q1)"
    and step: "config_loop os (raw_cfg # later) (fs', q1) = Inr (fs_end, job_queue)"
    unfolding config_loop_append by (auto split: sum.splits)
  let ?routes = "\<lambda>route_dir. discover_routes (iterdir os fs' route_dir)"
  from step obtain c route_dir bench fs2 q2 where
    c: "preprocess_config (expand_path os) (path_exists os fs') raw_cfg = Inr c"
      "route_path c = Some route_dir" "benchmark c = Some bench"
    and s: "seed_loop os c bench (if lower bench = ''bench2drive'' then 3 else 2) route_dir
         (?routes route_dir) (case seeds c of None \<Rightarrow> [1] | Some l \<Rightarrow> l) (fs', q1) =
         Inr (fs2, q2)"
    and r: "config_loop os later (fs2, q2) = Inr (fs_end, job_queue)"
    by (auto simp add: Let_def simp del: seed_loop.simps split: option.splits sum.splits)
  from seed_loop_result[OF s] obtain seg where seg: "q2 = q1 @ seg"
    "list_all2 (\<lambda>j (sd, name). cfg j = c \<and> seed j = sd \<and> route j = joinpath os route_dir name \<and>
        route_id j = zfill (last (split CHR ''_'' (stem name)))
          (if lower bench = ''bench2drive'' then 3 else 2))
       seg (List.product (case seeds c of None \<Rightarrow> [1] | Some l \<Rightarrow> l) (?routes route_dir))"
    by blast
  from config_loop_extends[OF r] obtain q3 where q3: "job_queue = q2 @ q3" by blast
  have xml: "suffix name = ''.xml''"
    if "(sd, name) \<in> set (List.product (case seeds c of None \<Rightarrow> [1] | Some l \<Rightarrow> l)
          (?routes route_dir))" for sd name
    using that by (auto simp: discover_routes_def)
  have "list_all2 (job_of_route os c bench route_dir) seg
      (List.product (case seeds c of None \<Rightarrow> [1] | Some l \<Rightarrow> l) (?routes route_dir))"
    using seg(2)
  proof (rule list.rel_mono_strong)
    fix j :: job and p :: "int \<times> string"
    assume p: "p \<in> set (List.product (case seeds c of None \<Rightarrow> [1] | Some l \<Rightarrow> l)
          (?routes route_dir))"
      and h: "(case p of (sd, name) \<Rightarrow> cfg j = c \<and> seed j = sd \<and>
          route j = joinpath os route_dir name \<and>
          route_id j = zfill (last (split CHR ''_'' (stem name)))
            (if lower bench = ''bench2drive'' then 3 else 2))"
    obtain sd name where pn: "p = (sd, name)" by (cases p)
    from xml[of sd name] p pn have "suffix name = ''.xml''" by simp
    from route_id_of_model[OF this, of bench] h pn
    show "job_of_route os c bench route_dir j p"
      by (simp add: job_of_route_def)
  qed
  moreover have "job_queue = q1 @ seg @ q3" using seg(1) q3 by simp
  ultimately show ?thesis using sound c by blast
qed

theorem route_id_zero_padded_witness:
  "build_job_queue example_os () ([] @ cfg example_mixed_job # []) = Inr [example_mixed_job] \<and>
   benchmark (cfg example_mixed_job) = Some ''Bench2Drive'' \<and>
   bench2drive_any_case ''Bench2Drive'' \<and>
   route_id example_mixed_job = ''007'' \<and>
   route_id_of ''Bench2Drive'' ''route_7.xml'' ''007'' \<and>
   build_job_queue example_os () [cfg example_other_job] = Inr [example_other_job] \<and>
   \<not> bench2drive_any_case ''longest6'' \<and>
   route_id example_other_job = ''07''"
proof -
  have b: "build_job_queue example_os () ([] @ cfg example_mixed_job # []) = Inr [example_mixed_job]"
    using build_example_mixed by simp
  from route_id_zero_padded [OF b]
  obtain bench route_dir name where
    d: "benchmark (cfg example_mixed_job) = Some bench"
      "route_path (cfg example_mixed_job) = Some route_dir"
      "route example_mixed_job = joinpath example_os route_dir name"
      "route_id_of bench name (route_id example_mixed_job)"
    by auto
  have f: "benchmark (cfg example_mixed_job) = Some ''Bench2Drive''"
    "route_path (cfg example_mixed_job) = Some ''/data/bench2drive_split''"
    "route example_mixed_job = ''/data/bench2drive_split/route_7.xml''"
    "route_id example_mixed_job = ''007''"
    by (simp_all add: example_mixed_job_def example_job_def)
  from d(1) f(1) have bn: "bench = ''Bench2Drive''" by simp
  from d(2) f(2) have rd: "route_dir = ''/data/bench2drive_split''" by simp
  from d(3) f(3) have "name = ''route_7.xml''"
    unfolding rd by (simp add: example_os_def)
  with bn d(4) f(4) have r: "route_id_of ''Bench2Drive'' ''route_7.xml'' ''007''" by simp
  have o: "route_id example_other_job = ''07''"
    by (simp add: example_other_job_def)
  from b f r o build_example_other any_case_examples show ?thesis by simp
qed

end
